theory Spec2Isabelle
  imports Main
begin

section \<open>Task API client (frontend/src/lib/api.ts)\<close>

text \<open>
  The status of a generation task, as the union type of \<open>TaskStatusResponse.status\<close>
  declares it.
\<close>

datatype task_status = Pending | Processing | Completed | Failed

record GenResponse =
  r2_structure_url :: "string option"
  r2_content_urls :: "string list option"
  json_wiki :: "string option"
  json_content :: "string option"
  vector_store_path :: "string option"
  repo_url :: "string option"

record TaskStatusResponse =
  task_id :: string
  status :: task_status
  progress :: int
  current_step :: string
  created_at :: string
  updated_at :: string
  result :: "GenResponse option"
  error :: "string option"

text \<open>
  What the awaited \<open>axios.get\<close> of \<open>getTaskStatus\<close> can do: resolve with the body
  of the response, reject with an axios error (whose \<open>response?.status\<close> is absent
  when no response arrived), or reject with anything else.
\<close>

datatype 'a http_outcome = HttpOk 'a | AxiosError "nat option" | OtherError

datatype api_error = Rethrown_AxiosError "nat option" | Rethrown_OtherError

text \<open>
  \<open>getTaskStatus\<close>: the clock reading \<open>now\<close> stands for
  \<open>new Date().toISOString()\<close>, \<open>outcome\<close> for the outcome of the request to
  \<open>/task/{task_id}\<close>. \<open>Inl\<close> is the error thrown to the caller.
\<close>

definition getTaskStatus ::
  "string \<Rightarrow> TaskStatusResponse http_outcome \<Rightarrow> string \<Rightarrow> api_error + TaskStatusResponse" where
  "getTaskStatus now outcome tid =
     (case outcome of
        HttpOk d \<Rightarrow> Inr d
      | AxiosError st \<Rightarrow>
          if st = Some 404 then
            Inr \<lparr> task_id = tid, status = Failed, progress = 0,
                  current_step = ''Task not found'',
                  created_at = now, updated_at = now,
                  result = None, error = Some ''Task not found or expired'' \<rparr>
          else Inl (Rethrown_AxiosError st)
      | OtherError \<Rightarrow> Inl Rethrown_OtherError)"

section \<open>Polling a task (frontend/src/app/page.tsx)\<close>

text \<open>
  The effects \<open>pollStatus\<close> performs once its request has settled, in the order of
  the source: \<open>setStatus\<close>, \<open>clearTimeout\<close> of the timer in \<open>pollTimerRef\<close>,
  \<open>setTimeout(() => pollStatus(id), delay)\<close>, and the calls that copy a finished
  task into the history store.
\<close>

datatype poll_action =
    SetStatus TaskStatusResponse
  | ClearTimeout
  | SetTimeout nat string
  | SyncTaskEnd string task_status "GenResponse option"
  | SyncRepository string string "string list"
  | LoadHistory string

text \<open>
  What \<open>pollStatus\<close> reads from its surroundings: the id of the signed-in user
  (\<open>session\<close>, absent when nobody is signed in) and the repository URL kept in
  \<open>localStorage\<close> under \<open>wiki_gen_repo_url\<close>.
\<close>

record poll_env =
  session :: "string option"
  stored_repo_url :: "string option"

text \<open>
  The history wrappers of \<open>lib/supabase.ts\<close> (\<open>syncTaskEnd\<close>,
  \<open>syncRepository\<close>) hand a failure back as the \<open>error\<close> field of the value they
  return, and \<open>pollStatus\<close> ignores that value; they are effects here.
  \<open>syncRepository\<close> is called for a completed task whose result has a non-empty
  structure URL and a list of content URLs, when a non-empty repository URL is stored.
\<close>

definition syncRepository_call :: "poll_env \<Rightarrow> TaskStatusResponse \<Rightarrow> poll_action list" where
  "syncRepository_call env r =
     (case result r of
        None \<Rightarrow> []
      | Some g \<Rightarrow>
          (case (r2_structure_url g, r2_content_urls g) of
             (Some su, Some cus) \<Rightarrow>
               if status r = Completed \<and> su \<noteq> [] then
                 (case stored_repo_url env of
                    Some repoUrl \<Rightarrow> if repoUrl \<noteq> [] then [SyncRepository repoUrl su cus] else []
                  | None \<Rightarrow> [])
               else []
           | _ \<Rightarrow> []))"

text \<open>
  \<open>pollStatus\<close> after \<open>await api.getTaskStatus(id)\<close> has settled with \<open>res\<close>
  (\<open>Inl\<close>: it threw, and the \<open>catch\<close> block runs). \<open>timer_set\<close> says whether
  \<open>pollTimerRef.current\<close> holds a timer.
\<close>

definition pollStatus ::
  "poll_env \<Rightarrow> bool \<Rightarrow> string \<Rightarrow> api_error + TaskStatusResponse \<Rightarrow> poll_action list" where
  "pollStatus env timer_set tid res =
     (case res of
        Inr r \<Rightarrow>
          SetStatus r #
          (if status r = Completed \<or> status r = Failed then
             (if timer_set then [ClearTimeout] else []) @
             (case session env of
                Some uid \<Rightarrow>
                  SyncTaskEnd tid (status r) (result r) # syncRepository_call env r @ [LoadHistory uid]
              | None \<Rightarrow> [])
           else [SetTimeout 2000 tid])
      | Inl e \<Rightarrow> [SetTimeout 5000 tid])"

text \<open>
  A run of the polling chain on the clock of the event loop (milliseconds). Each poll is
  answered by the next entry of the list: the time the request takes and its outcome.
  A poll is issued when \<open>pollStatus\<close> is called; the timer that \<open>pollStatus\<close> sets
  calls it again when the delay has passed. With no answer left the last request stays
  pending.
\<close>

datatype trace_event = PollIssued nat string | Did nat poll_action

fun next_timer :: "poll_action list \<Rightarrow> (nat \<times> string) option" where
  "next_timer [] = None"
| "next_timer (SetTimeout d i # as) = Some (d, i)"
| "next_timer (a # as) = next_timer as"

fun watch ::
  "poll_env \<Rightarrow> (nat \<Rightarrow> string) \<Rightarrow> bool \<Rightarrow> nat \<Rightarrow> string
     \<Rightarrow> (nat \<times> TaskStatusResponse http_outcome) list \<Rightarrow> trace_event list" where
  "watch env clock timer_set t tid [] = [PollIssued t tid]"
| "watch env clock timer_set t tid ((lat, outcome) # rest) =
     (let acts = pollStatus env timer_set tid (getTaskStatus (clock (t + lat)) outcome tid)
      in PollIssued t tid # map (Did (t + lat)) acts @
         (case next_timer acts of
            None \<Rightarrow> []
          | Some (d, tid') \<Rightarrow> watch env clock True (t + lat + d) tid' rest))"

fun polls :: "trace_event list \<Rightarrow> (nat \<times> string) list" where
  "polls [] = []"
| "polls (PollIssued t i # tr) = (t, i) # polls tr"
| "polls (Did t a # tr) = polls tr"

fun emitted :: "trace_event list \<Rightarrow> TaskStatusResponse list" where
  "emitted [] = []"
| "emitted (Did t (SetStatus r) # tr) = r # emitted tr"
| "emitted (e # tr) = emitted tr"

fun timeouts :: "trace_event list \<Rightarrow> (nat \<times> nat \<times> string) list" where
  "timeouts [] = []"
| "timeouts (Did t (SetTimeout d i) # tr) = (t, d, i) # timeouts tr"
| "timeouts (e # tr) = timeouts tr"

definition transport_error :: "TaskStatusResponse http_outcome \<Rightarrow> bool" where
  "transport_error outcome =
     (case outcome of HttpOk d \<Rightarrow> False | AxiosError st \<Rightarrow> st \<noteq> Some 404 | OtherError \<Rightarrow> True)"

definition non_terminal :: "TaskStatusResponse http_outcome \<Rightarrow> bool" where
  "non_terminal outcome =
     (case outcome of
        HttpOk d \<Rightarrow> status d = Pending \<or> status d = Processing
      | _ \<Rightarrow> transport_error outcome)"


text \<open>A signed-in user and a task record, for the example runs.\<close>

definition example_env :: poll_env where
  "example_env = \<lparr> session = Some ''user-1'', stored_repo_url = Some ''https://github.com/o/r'' \<rparr>"

definition example_record :: "task_status \<Rightarrow> TaskStatusResponse" where
  "example_record st =
     \<lparr> task_id = ''t1'', status = st, progress = 50, current_step = ''step'',
       created_at = ''c'', updated_at = ''u'',
       result = (if st = Completed
                 then Some \<lparr> r2_structure_url = Some ''https://h/p/structure.json'',
                             r2_content_urls = Some [''https://h/p/intro.json''],
                             json_wiki = None, json_content = None,
                             vector_store_path = None, repo_url = None \<rparr>
                 else None),
       error = None \<rparr>"


section \<open>The documentation tree and its content URLs (components/WikiViewer.tsx)\<close>

text \<open>
  \<open>WikiStructureItem\<close> as the interface declares it: \<open>filename\<close> and
  \<open>children\<close> are optional fields.
\<close>

datatype WikiStructureItem =
  WikiStructureItem (item_id: string) (title: string) (filename: "string option")
    (children: "WikiStructureItem list option")

text \<open>
  \<open>findItemById\<close>: the first node with the id, in depth-first order. An array of
  children is searched whenever the field is present (an empty array is truthy).
\<close>

fun findItemById :: "WikiStructureItem list \<Rightarrow> string \<Rightarrow> WikiStructureItem option" where
  "findItemById [] sel = None"
| "findItemById (WikiStructureItem i t f None # items) sel =
     (if i = sel then Some (WikiStructureItem i t f None) else findItemById items sel)"
| "findItemById (WikiStructureItem i t f (Some cs) # items) sel =
     (if i = sel then Some (WikiStructureItem i t f (Some cs))
      else (case findItemById cs sel of
              Some found \<Rightarrow> Some found
            | None \<Rightarrow> findItemById items sel))"

text \<open>
  \<open>flattenStructure\<close>: \<open>traverse\<close> pushes every node onto \<open>result\<close> and then
  walks its children; the array \<open>result\<close> is threaded through as \<open>acc\<close>.
\<close>

fun traverse :: "WikiStructureItem list \<Rightarrow> WikiStructureItem list \<Rightarrow> WikiStructureItem list" where
  "traverse [] acc = acc"
| "traverse (WikiStructureItem i t f None # items) acc =
     traverse items (acc @ [WikiStructureItem i t f None])"
| "traverse (WikiStructureItem i t f (Some cs) # items) acc =
     traverse items (traverse cs (acc @ [WikiStructureItem i t f (Some cs)]))"

definition flattenStructure :: "WikiStructureItem list \<Rightarrow> WikiStructureItem list" where
  "flattenStructure items = traverse items []"

text \<open>\<open>Array.prototype.findIndex\<close>: the first index whose element passes, or \<open>-1\<close>.\<close>

fun findIndex :: "('a \<Rightarrow> bool) \<Rightarrow> 'a list \<Rightarrow> int" where
  "findIndex P [] = - 1"
| "findIndex P (x # xs) =
     (if P x then 0 else (let r = findIndex P xs in if r = - 1 then - 1 else r + 1))"

text \<open>
  The part of \<open>fetchPage\<close> (WikiViewer.tsx) that runs before the request: it finds
  the node, flattens the tree, takes the index of the selected id and reads the content
  URL at that index. \<open>Inl\<close> carries the message of the \<open>Error\<close> thrown.
\<close>

definition fetchPage_url ::
  "WikiStructureItem list \<Rightarrow> string \<Rightarrow> string list \<Rightarrow> string + string" where
  "fetchPage_url structure selectedId contentUrls =
     (case findItemById structure selectedId of
        None \<Rightarrow> Inl ''Page not found in structure''
      | Some item \<Rightarrow>
          (let flatStructure = flattenStructure structure;
               index = findIndex (\<lambda>item. item_id item = selectedId) flatStructure
           in if index = - 1 \<or> index \<ge> int (length contentUrls)
              then Inl (''Content URL not found for '' @ selectedId)
              else Inr (contentUrls ! nat index)))"

subsection \<open>The earlier viewer (unnamed/part_001): matching by file name\<close>

text \<open>
  \<open>String.prototype.replace\<close> with a string pattern replaces the first occurrence
  of the pattern, wherever it stands; \<open>replace('.json', '')\<close> removes it.
\<close>

fun replace_first :: "string \<Rightarrow> string \<Rightarrow> string \<Rightarrow> string" where
  "replace_first pat rep [] = (if pat = [] then rep else [])"
| "replace_first pat rep (c # cs) =
     (if take (length pat) (c # cs) = pat then rep @ drop (length pat) (c # cs)
      else c # replace_first pat rep cs)"

definition remove_json :: "string \<Rightarrow> string" where
  "remove_json s = replace_first ''.json'' [] s"

text \<open>The last element of \<open>s.split('/')\<close>: what follows the last slash.\<close>

definition last_segment :: "string \<Rightarrow> string" where
  "last_segment s = rev (takeWhile (\<lambda>c. c \<noteq> CHR ''/'') (rev s))"

text \<open>
  \<open>extractFilename\<close>. The platform's \<open>new URL(url).pathname\<close> is the parameter
  \<open>pathname\<close>, \<open>None\<close> where the constructor throws; the \<open>catch\<close> block then
  splits the URL text itself. An empty last segment gives \<open>null\<close>.
\<close>

definition extractFilename :: "(string \<Rightarrow> string option) \<Rightarrow> string \<Rightarrow> string option" where
  "extractFilename pathname url =
     (if url = [] then None
      else (let seg = (case pathname url of
                         Some p \<Rightarrow> last_segment p
                       | None \<Rightarrow> last_segment url)
            in if seg = [] then None else Some seg))"

text \<open>\<open>item.filename || `${item.id}.json`\<close>: an empty file name is falsy.\<close>

definition expectedFilename :: "WikiStructureItem \<Rightarrow> string" where
  "expectedFilename item =
     (case filename item of
        Some f \<Rightarrow> if f \<noteq> [] then f else item_id item @ ''.json''
      | None \<Rightarrow> item_id item @ ''.json'')"

text \<open>The test of the loop body of \<open>fetchPage\<close> for one URL, with its six alternatives.\<close>

definition url_matches :: "(string \<Rightarrow> string option) \<Rightarrow> WikiStructureItem \<Rightarrow> string \<Rightarrow> bool" where
  "url_matches pathname item url =
     (case extractFilename pathname url of
        None \<Rightarrow> False
      | Some urlFilename \<Rightarrow>
          (let expectedFilenameWithoutExt = remove_json (expectedFilename item);
               itemIdWithoutExt = remove_json (item_id item);
               urlFilenameWithoutExt = remove_json urlFilename
           in urlFilename = expectedFilename item
              \<or> urlFilename = item_id item @ ''.json''
              \<or> urlFilenameWithoutExt = expectedFilenameWithoutExt
              \<or> urlFilenameWithoutExt = itemIdWithoutExt
              \<or> urlFilenameWithoutExt = item_id item
              \<or> (case filename item of
                    Some f \<Rightarrow> urlFilenameWithoutExt = remove_json f
                  | None \<Rightarrow> False)))"

text \<open>The loop over \<open>contentUrls\<close>: the first URL that passes the test.\<close>

fun match_loop :: "(string \<Rightarrow> string option) \<Rightarrow> WikiStructureItem \<Rightarrow> string list \<Rightarrow> string option" where
  "match_loop pathname item [] = None"
| "match_loop pathname item (url # urls) =
     (if url_matches pathname item url then Some url else match_loop pathname item urls)"

definition fetchPage_url_by_filename ::
  "(string \<Rightarrow> string option) \<Rightarrow> WikiStructureItem list \<Rightarrow> string \<Rightarrow> string list
     \<Rightarrow> string + string" where
  "fetchPage_url_by_filename pathname structure selectedId contentUrls =
     (case findItemById structure selectedId of
        None \<Rightarrow> Inl ''Page not found in structure''
      | Some item \<Rightarrow>
          (case match_loop pathname item contentUrls of
             None \<Rightarrow> Inl (''Content URL not found for '' @ expectedFilename item
                            @ '' (id: '' @ item_id item @ '')'')
           | Some matchedUrl \<Rightarrow> Inr matchedUrl))"

text \<open>
  A pathname function for the examples: for an absolute URL \<open>scheme://host/path\<close> with
  plain characters the platform's pathname is the text from the first slash after the
  host up to a \<open>?\<close> or \<open>#\<close>, and \<open>/\<close> when no such slash exists; a text without
  \<open>://\<close> is taken as one the constructor rejects.
\<close>

fun after_scheme :: "string \<Rightarrow> string option" where
  "after_scheme [] = None"
| "after_scheme (c # cs) =
     (if take 3 (c # cs) = ''://'' then Some (drop 3 (c # cs)) else after_scheme cs)"

definition example_pathname :: "string \<Rightarrow> string option" where
  "example_pathname url =
     (case after_scheme url of
        None \<Rightarrow> None
      | Some r \<Rightarrow>
          (let p = takeWhile (\<lambda>c. c \<noteq> CHR ''?'' \<and> c \<noteq> CHR ''#'')
                     (dropWhile (\<lambda>c. c \<noteq> CHR ''/'' \<and> c \<noteq> CHR ''?'' \<and> c \<noteq> CHR ''#'') r)
           in Some (if p = [] then ''/'' else p)))"


text \<open>The depth-first order of the nodes, written without the accumulator.\<close>

fun dfs :: "WikiStructureItem list \<Rightarrow> WikiStructureItem list" where
  "dfs [] = []"
| "dfs (WikiStructureItem i t f None # items) = WikiStructureItem i t f None # dfs items"
| "dfs (WikiStructureItem i t f (Some cs) # items) =
     WikiStructureItem i t f (Some cs) # dfs cs @ dfs items"

subsection \<open>The viewer's state and what it shows\<close>

text \<open>
  The state of the component: \<open>wikiStructure\<close> is the state variable \<open>structure\<close>
  and \<open>pageError\<close> the state variable \<open>error\<close>. \<open>'p\<close> is the page document
  with its content parsed.
\<close>

record 'p viewer_state =
  wikiStructure :: "WikiStructureItem list"
  selectedId :: "string option"
  pageContent :: "'p option"
  loading :: bool
  loadingPage :: bool
  mobileMenuOpen :: bool
  pageError :: "string option"

text \<open>
  What the request for the page and the parsing of its body come to: the page, or
  something thrown on the way.
\<close>

datatype 'p page_outcome = PageLoaded 'p | PageRequestFailed

text \<open>
  The effect on \<open>[selectedId, contentUrls, structure]\<close> of WikiViewer.tsx, run to
  completion: it returns at once when nothing is selected or a list is empty; the
  \<open>catch\<close> block of \<open>fetchPage\<close> calls
  \<open>setError('Failed to load page content.')\<close>.
\<close>

definition fetchPage ::
  "string list \<Rightarrow> (string \<Rightarrow> 'p page_outcome) \<Rightarrow> 'p viewer_state \<Rightarrow> 'p viewer_state" where
  "fetchPage contentUrls request st =
     (case selectedId st of
        None \<Rightarrow> st
      | Some sel \<Rightarrow>
          if sel = [] \<or> wikiStructure st = [] \<or> contentUrls = [] then st
          else
            (case fetchPage_url (wikiStructure st) sel contentUrls of
               Inl msg \<Rightarrow>
                 st\<lparr>pageError := Some ''Failed to load page content.'', loadingPage := False\<rparr>
             | Inr matchedUrl \<Rightarrow>
                 (case request matchedUrl of
                    PageLoaded p \<Rightarrow> st\<lparr>pageContent := Some p, loadingPage := False\<rparr>
                  | PageRequestFailed \<Rightarrow>
                      st\<lparr>pageError := Some ''Failed to load page content.'',
                         loadingPage := False\<rparr>)))"

text \<open>
  The same effect in the earlier viewer (unnamed/part_001): its \<open>catch\<close> block only
  logs (\<open>Don't set global error\<close>), and a loaded page closes the mobile menu.
  \<open>transformUrl\<close> is part of \<open>request\<close> here.
\<close>

definition fetchPage_by_filename ::
  "(string \<Rightarrow> string option) \<Rightarrow> string list \<Rightarrow> (string \<Rightarrow> 'p page_outcome)
     \<Rightarrow> 'p viewer_state \<Rightarrow> 'p viewer_state" where
  "fetchPage_by_filename pathname contentUrls request st =
     (case selectedId st of
        None \<Rightarrow> st
      | Some sel \<Rightarrow>
          if sel = [] \<or> wikiStructure st = [] \<or> contentUrls = [] then st
          else
            (case fetchPage_url_by_filename pathname (wikiStructure st) sel contentUrls of
               Inl msg \<Rightarrow> st\<lparr>loadingPage := False\<rparr>
             | Inr matchedUrl \<Rightarrow>
                 (case request matchedUrl of
                    PageLoaded p \<Rightarrow>
                      st\<lparr>pageContent := Some p, mobileMenuOpen := False, loadingPage := False\<rparr>
                  | PageRequestFailed \<Rightarrow> st\<lparr>loadingPage := False\<rparr>)))"

text \<open>
  What the component returns: the spinner while the structure loads, the error message
  alone as soon as \<open>error\<close> is set, and otherwise the sidebar with the tree beside
  the page.
\<close>

datatype 'p view =
    LoadingView
  | ErrorView string
  | WikiView "WikiStructureItem list" "'p option" bool

definition render :: "'p viewer_state \<Rightarrow> 'p view" where
  "render st =
     (if loading st \<and> wikiStructure st = [] then LoadingView
      else (case pageError st of
              Some e \<Rightarrow>
                if e \<noteq> [] then ErrorView e
                else WikiView (wikiStructure st) (pageContent st) (loadingPage st)
            | None \<Rightarrow> WikiView (wikiStructure st) (pageContent st) (loadingPage st)))"

text \<open>A click on a sidebar entry: \<open>setSelectedId(item.id)\<close>.\<close>

definition select_item :: "string \<Rightarrow> 'p viewer_state \<Rightarrow> 'p viewer_state" where
  "select_item i st = st\<lparr>selectedId := Some i\<rparr>"

text \<open>A two-page tree with one content URL, for the examples.\<close>

definition example_structure :: "WikiStructureItem list" where
  "example_structure =
     [WikiStructureItem ''overview'' ''Overview'' (Some ''overview.json'') None,
      WikiStructureItem ''intro'' ''Intro'' (Some ''intro.json'') None]"

definition example_state :: "string viewer_state" where
  "example_state =
     \<lparr> wikiStructure = example_structure, selectedId = Some ''overview'',
       pageContent = Some ''overview page'', loading = False, loadingPage = False,
       mobileMenuOpen = False, pageError = None \<rparr>"


section \<open>JavaScript values read from the server\<close>

text \<open>
  The values a JSON response can hold, and \<open>undefined\<close> for what a property read
  finds missing. A string is the list of its code units; a number is modelled on the
  integers that print in plain decimal digits. \<open>JObj\<close> lists the own properties of an
  object, each key once, in the order in which \<open>Object.keys\<close> enumerates them.
\<close>

datatype jsval =
    JUndefined | JNull | JBool bool | JNum int | JStr string
  | JArr "jsval list" | JObj "(string \<times> jsval) list"

datatype js_error = TypeError

text \<open>Truthiness, as \<open>||\<close>, \<open>&&\<close> and \<open>if\<close> test it.\<close>

fun truthy :: "jsval \<Rightarrow> bool" where
  "truthy JUndefined = False"
| "truthy JNull = False"
| "truthy (JBool b) = b"
| "truthy (JNum n) = (n \<noteq> 0)"
| "truthy (JStr s) = (s \<noteq> [])"
| "truthy (JArr xs) = True"
| "truthy (JObj kvs) = True"

definition js_or :: "jsval \<Rightarrow> jsval \<Rightarrow> jsval" where
  "js_or a b = (if truthy a then a else b)"

text \<open>
  A property read \<open>v.k\<close>, for the property names the code reads (none of them is a
  built-in property of a string, a number or an array): \<open>None\<close> is the
  \<open>TypeError\<close> of reading a property of \<open>null\<close> or \<open>undefined\<close>.
\<close>

fun get_prop :: "jsval \<Rightarrow> string \<Rightarrow> jsval option" where
  "get_prop JUndefined k = None"
| "get_prop JNull k = None"
| "get_prop (JObj kvs) k = Some (case map_of kvs k of Some v \<Rightarrow> v | None \<Rightarrow> JUndefined)"
| "get_prop v k = Some JUndefined"

text \<open>The same read on a value already known not to be \<open>null\<close> or \<open>undefined\<close>.\<close>

definition field :: "jsval \<Rightarrow> string \<Rightarrow> jsval" where
  "field v k = (case get_prop v k of Some x \<Rightarrow> x | None \<Rightarrow> JUndefined)"

text \<open>Decimal digits of a number, for template literals.\<close>

function decimal :: "nat \<Rightarrow> string" where
  "decimal n =
     (if n < 10 then [char_of (48 + n)]
      else decimal (n div 10) @ [char_of (48 + n mod 10)])"
  by pat_completeness auto
termination
  by (relation "measure (\<lambda>n. n)") auto

definition show_int :: "int \<Rightarrow> string" where
  "show_int i = (if i < 0 then CHR ''-'' # decimal (nat (- i)) else decimal (nat i))"

fun join_with :: "string \<Rightarrow> string list \<Rightarrow> string" where
  "join_with sep [] = []"
| "join_with sep [x] = x"
| "join_with sep (x # y # ys) = x @ sep @ join_with sep (y # ys)"

text \<open>
  \<open>ToString\<close>, as a template literal applies it. An array joins its elements with
  commas, \<open>null\<close> and \<open>undefined\<close> elements as the empty text; a plain object is
  \<open>[object Object]\<close>, unless it has an own property \<open>toString\<close>, which a JSON value
  cannot make callable: the conversion then throws.
\<close>

function to_string :: "jsval \<Rightarrow> string option" where
  "to_string JUndefined = Some ''undefined''"
| "to_string JNull = Some ''null''"
| "to_string (JBool b) = Some (if b then ''true'' else ''false'')"
| "to_string (JNum n) = Some (show_int n)"
| "to_string (JStr s) = Some s"
| "to_string (JArr xs) =
     map_option (join_with '','')
       (those (map (\<lambda>x. if x = JUndefined \<or> x = JNull then Some [] else to_string x) xs))"
| "to_string (JObj kvs) =
     (if ''toString'' \<in> fst ` set kvs then None else Some ''[object Object]'')"
  by pat_completeness auto
termination
  by (relation "measure size") (auto simp: less_Suc_eq_le size_list_estimation')

text \<open>Collects the results of a \<open>map\<close> callback; the first exception ends it.\<close>

fun collect :: "('e + 'a) list \<Rightarrow> 'e + 'a list" where
  "collect [] = Inr []"
| "collect (Inl e # rs) = Inl e"
| "collect (Inr x # rs) = (case collect rs of Inl e \<Rightarrow> Inl e | Inr xs \<Rightarrow> Inr (x # xs))"

section \<open>Normalizing the structure document (fetchStructure)\<close>

text \<open>
  An entry of the normalized list. Each field holds whatever value the expression of
  the source yields; \<open>nchildren\<close> is \<open>item.children\<close> as it came.
\<close>

record normalized_item =
  nid :: jsval
  ntitle :: jsval
  nfilename :: jsval
  nchildren :: jsval

text \<open>
  \<open>item.id || item.section_id || item.filename?.replace('.json', '') || 'unknown'\<close>,
  on the three values read. \<open>?.\<close> stops at \<open>null\<close> and \<open>undefined\<close>; on any
  other value that is not a string, \<open>replace\<close> is not a function.
\<close>

definition derive_id :: "jsval \<Rightarrow> jsval \<Rightarrow> jsval \<Rightarrow> js_error + jsval" where
  "derive_id vid vsection vfilename =
     (if truthy vid then Inr vid
      else if truthy vsection then Inr vsection
      else (case vfilename of
              JUndefined \<Rightarrow> Inr (JStr ''unknown'')
            | JNull \<Rightarrow> Inr (JStr ''unknown'')
            | JStr f \<Rightarrow> Inr (js_or (JStr (remove_json f)) (JStr ''unknown''))
            | _ \<Rightarrow> Inl TypeError))"

text \<open>\<open>`${v}.json`\<close>\<close>

definition json_name :: "jsval \<Rightarrow> js_error + jsval" where
  "json_name v = (case to_string v of None \<Rightarrow> Inl TypeError | Some s \<Rightarrow> Inr (JStr (s @ ''.json'')))"

text \<open>The callback of \<open>data.map\<close> in WikiViewer.tsx.\<close>

definition normalizeItem :: "jsval \<Rightarrow> js_error + normalized_item" where
  "normalizeItem item =
     (case get_prop item ''id'' of
        None \<Rightarrow> Inl TypeError
      | Some vid \<Rightarrow>
          (case derive_id vid (field item ''section_id'') (field item ''filename'') of
             Inl e \<Rightarrow> Inl e
           | Inr i \<Rightarrow>
               (case (if truthy (field item ''filename'') then Inr (field item ''filename'')
                      else json_name i) of
                  Inl e \<Rightarrow> Inl e
                | Inr fn \<Rightarrow>
                    Inr \<lparr> nid = i,
                          ntitle = js_or (js_or (field item ''title'') (field item ''name''))
                                     (JStr ''Untitled''),
                          nfilename = fn,
                          nchildren = field item ''children'' \<rparr>)))"

text \<open>
  The callback of the earlier viewer (unnamed/part_001): the file name is built from
  \<open>item.id\<close>, then from \<open>item.section_id\<close>, and is \<open>null\<close> when both are falsy.
\<close>

definition normalizeItem_earlier :: "jsval \<Rightarrow> js_error + normalized_item" where
  "normalizeItem_earlier item =
     (case get_prop item ''id'' of
        None \<Rightarrow> Inl TypeError
      | Some vid \<Rightarrow>
          (case derive_id vid (field item ''section_id'') (field item ''filename'') of
             Inl e \<Rightarrow> Inl e
           | Inr i \<Rightarrow>
               (case (if truthy (field item ''filename'') then Inr (field item ''filename'')
                      else if truthy vid then json_name vid
                      else if truthy (field item ''section_id'')
                           then json_name (field item ''section_id'')
                      else Inr JNull) of
                  Inl e \<Rightarrow> Inl e
                | Inr fn \<Rightarrow>
                    Inr \<lparr> nid = i,
                          ntitle = js_or (js_or (field item ''title'') (field item ''name''))
                                     (JStr ''Untitled''),
                          nfilename = fn,
                          nchildren = field item ''children'' \<rparr>)))"

text \<open>
  The own enumerable properties \<open>Object.keys\<close> walks, with their values: those of an
  object; the indices of a string with its characters; none for a number or a boolean.
\<close>

definition own_entries :: "jsval \<Rightarrow> (string \<times> jsval) list" where
  "own_entries data =
     (case data of
        JObj kvs \<Rightarrow> kvs
      | JStr s \<Rightarrow> zip (map decimal [0..<length s]) (map (\<lambda>c. JStr [c]) s)
      | JArr xs \<Rightarrow> zip (map decimal [0..<length xs]) xs
      | _ \<Rightarrow> [])"

text \<open>
  \<open>{id: key, title: typeof data[key] === 'string' ? data[key] : (data[key].title || key)}\<close>
\<close>

definition flat_entry :: "string \<times> jsval \<Rightarrow> js_error + jsval" where
  "flat_entry kv =
     (case snd kv of
        JStr s \<Rightarrow> Inr (JObj [(''id'', JStr (fst kv)), (''title'', JStr s)])
      | v \<Rightarrow>
          (case get_prop v ''title'' of
             None \<Rightarrow> Inl TypeError
           | Some t \<Rightarrow> Inr (JObj [(''id'', JStr (fst kv)), (''title'', js_or t (JStr (fst kv)))])))"

text \<open>
  The node list taken from the document: the array itself, its \<open>toc\<close>, its
  \<open>pages\<close>, or one node per key.
\<close>

definition node_list :: "jsval \<Rightarrow> js_error + jsval list" where
  "node_list data =
     (case data of
        JArr xs \<Rightarrow> Inr xs
      | _ \<Rightarrow>
          (case get_prop data ''toc'' of
             None \<Rightarrow> Inl TypeError
           | Some (JArr xs) \<Rightarrow> Inr xs
           | Some _ \<Rightarrow>
               (case get_prop data ''pages'' of
                  Some (JArr ys) \<Rightarrow> Inr ys
                | _ \<Rightarrow> collect (map flat_entry (own_entries data)))))"

definition normalizeStructure :: "jsval \<Rightarrow> js_error + normalized_item list" where
  "normalizeStructure data =
     (case node_list data of
        Inl e \<Rightarrow> Inl e
      | Inr items \<Rightarrow> collect (map normalizeItem items))"

definition normalizeStructure_earlier :: "jsval \<Rightarrow> js_error + normalized_item list" where
  "normalizeStructure_earlier data =
     (case node_list data of
        Inl e \<Rightarrow> Inl e
      | Inr items \<Rightarrow> collect (map normalizeItem_earlier items))"


section \<open>Parsing a page's content (parseContentSafely)\<close>

text \<open>
  The object \<open>parseContentSafely\<close> returns. Each field holds the value the
  expression of the source yields, whatever its type.
\<close>

record content =
  intro :: jsval
  sections :: jsval
  mermaid :: jsval

definition empty_content :: content where
  "empty_content = \<lparr> intro = JStr [], sections = JArr [], mermaid = JStr [] \<rparr>"

text \<open>
  \<open>String.prototype.trim\<close> removes white space and line terminators at both ends;
  these are the ones among the code units of this model.
\<close>

definition is_space :: "char \<Rightarrow> bool" where
  "is_space c = (c \<in> set [CHR 0x09, CHR 0x0A, CHR 0x0B, CHR 0x0C, CHR 0x0D, CHR 0x20, CHR 0xA0])"

definition trim :: "string \<Rightarrow> string" where
  "trim s = rev (dropWhile is_space (rev (dropWhile is_space s)))"

definition startsWith :: "string \<Rightarrow> string \<Rightarrow> bool" where
  "startsWith s p = (take (length p) s = p)"

text \<open>\<open>typeof v === 'object'\<close>\<close>

fun typeof_object :: "jsval \<Rightarrow> bool" where
  "typeof_object JNull = True"
| "typeof_object (JArr xs) = True"
| "typeof_object (JObj kvs) = True"
| "typeof_object v = False"

fun is_string :: "jsval \<Rightarrow> bool" where
  "is_string (JStr s) = True"
| "is_string v = False"

fun is_array :: "jsval \<Rightarrow> bool" where
  "is_array (JArr xs) = True"
| "is_array v = False"

text \<open>
  The first test of \<open>parseContentSafely\<close>: \<open>rawContent && typeof rawContent ===
  'object' && typeof rawContent.intro === 'string' && Array.isArray(rawContent.sections)\<close>.
\<close>

definition has_content_shape :: "jsval \<Rightarrow> bool" where
  "has_content_shape rawContent =
     (truthy rawContent \<and> typeof_object rawContent
      \<and> is_string (field rawContent ''intro'') \<and> is_array (field rawContent ''sections''))"

text \<open>
  What the three \<open>return\<close> statements under that test build. \<open>plain_content\<close> is
  the object of the last one and of the inner \<open>catch\<close> block.
\<close>

definition plain_content :: "jsval \<Rightarrow> content" where
  "plain_content rawContent =
     \<lparr> intro = field rawContent ''intro'',
       sections = js_or (field rawContent ''sections'') (JArr []),
       mermaid = js_or (field rawContent ''mermaid'') (JStr []) \<rparr>"

text \<open>
  The branch for a value of the expected shape. \<open>JSON_parse\<close> is the platform's
  \<open>JSON.parse\<close>, \<open>None\<close> where it throws. A property read on a parsed
  \<open>null\<close> throws too, and the inner \<open>catch\<close> block returns the plain content.
\<close>

definition shaped_content :: "(string \<Rightarrow> jsval option) \<Rightarrow> jsval \<Rightarrow> content" where
  "shaped_content JSON_parse rawContent =
     (case field rawContent ''intro'' of
        JStr s \<Rightarrow>
          if startsWith (trim s) ''{'' then
            (case JSON_parse s of
               None \<Rightarrow> plain_content rawContent
             | Some parsedIntro \<Rightarrow>
                 (case (get_prop parsedIntro ''intro'', get_prop parsedIntro ''sections'',
                        get_prop parsedIntro ''mermaid'') of
                    (Some pintro, Some psections, Some pmermaid) \<Rightarrow>
                      \<lparr> intro = js_or pintro (field rawContent ''intro''),
                        sections = js_or (js_or psections (field rawContent ''sections'')) (JArr []),
                        mermaid = js_or (js_or pmermaid (field rawContent ''mermaid'')) (JStr []) \<rparr>
                  | _ \<Rightarrow> plain_content rawContent))
          else plain_content rawContent
      | _ \<Rightarrow> plain_content rawContent)"

text \<open>
  \<open>parseContentSafely\<close>. A string is parsed and the function calls itself on the
  result, with no bound on the depth; a \<open>JSON.parse\<close> that throws there is caught by
  the outer \<open>catch\<close> block, which returns the empty content. \<open>None\<close> stands for a
  call that does not return.
\<close>

partial_function (option) parseContentSafely ::
  "(string \<Rightarrow> jsval option) \<Rightarrow> jsval \<Rightarrow> content option" where
  "parseContentSafely JSON_parse rawContent =
     (if has_content_shape rawContent then Some (shaped_content JSON_parse rawContent)
      else (case rawContent of
              JStr s \<Rightarrow>
                (case JSON_parse s of
                   None \<Rightarrow> Some empty_content
                 | Some parsed \<Rightarrow> parseContentSafely JSON_parse parsed)
            | _ \<Rightarrow> Some empty_content))"

text \<open>
  What the model asks of \<open>JSON.parse\<close>: a text that parses to a string is longer than
  that string (it is the string's literal, in quotes).
\<close>

definition string_results_shorter :: "(string \<Rightarrow> jsval option) \<Rightarrow> bool" where
  "string_results_shorter JSON_parse =
     (\<forall>s t. JSON_parse s = Some (JStr t) \<longrightarrow> length t < length s)"

text \<open>
  A table of \<open>JSON.parse\<close> results for the examples; every other text is taken as
  one that does not parse.
\<close>

definition example_parse :: "string \<Rightarrow> jsval option" where
  "example_parse =
     map_of
       [(''{\"intro\":\"real intro\",\"sections\":[]}'',
           JObj [(''intro'', JStr ''real intro''), (''sections'', JArr [])]),
        (''{\"intro\":\"\",\"sections\":[]}'',
           JObj [(''intro'', JStr []), (''sections'', JArr [])]),
        (''{\"intro\":5,\"sections\":\"none\"}'',
           JObj [(''intro'', JNum 5), (''sections'', JStr ''none'')]),
        (''{}'', JObj []),
        (''\"{}\"'', JStr ''{}''),
        (''null'', JNull),
        (''7'', JNum 7)]"


section \<open>Preparing a diagram's source (components/Mermaid.tsx)\<close>

text \<open>The character classes of the regular expressions of \<open>prepareChart\<close>.\<close>

definition is_word :: "char \<Rightarrow> bool" where
  "is_word c =
     (c \<in> set ''abcdefghijklmnopqrstuvwxyzABCDEFGHIJKLMNOPQRSTUVWXYZ0123456789_'')"

definition is_open :: "char \<Rightarrow> bool" where
  "is_open c = (c \<in> set ''[({'')"

definition is_close :: "char \<Rightarrow> bool" where
  "is_close c = (c \<in> set ''])}'')"

definition is_quote :: "char \<Rightarrow> bool" where
  "is_quote c = (c = CHR 0x22 \<or> c = CHR 0x27)"

definition is_special :: "char \<Rightarrow> bool" where
  "is_special c = (c \<in> set ''/()@#&<>'')"

text \<open>What \<open>.\<close> does not match: a line terminator.\<close>

definition is_line_terminator :: "char \<Rightarrow> bool" where
  "is_line_terminator c = (c = CHR 0x0A \<or> c = CHR 0x0D)"

text \<open>
  \<open>replace(/\\n/g, '\n')\<close>: every backslash followed by \<open>n\<close>, from the left,
  becomes a line feed.
\<close>

fun unescape_newlines :: "string \<Rightarrow> string" where
  "unescape_newlines (a # b # cs) =
     (if a = CHR 0x5C \<and> b = CHR ''n'' then CHR 0x0A # unescape_newlines cs
      else a # unescape_newlines (b # cs))"
| "unescape_newlines cs = cs"

text \<open>
  One attempt to match \<open>(\w+)(\[|\(|\{)([^\]\)\}]+)(\]|\)|\})\<close> at the start of a
  text: the longest run of word characters, an opening bracket, the longest run of
  characters that are not closing brackets, and a closing bracket. Both runs are greedy
  and giving characters back never helps, so the match is this one or none. The result
  is the four groups and the text after the match.
\<close>

definition match_node :: "string \<Rightarrow> (string \<times> char \<times> string \<times> char \<times> string) option" where
  "match_node s =
     (let nodeId = takeWhile is_word s in
      if nodeId = [] then None
      else (case dropWhile is_word s of
              [] \<Rightarrow> None
            | openBracket # r \<Rightarrow>
                if \<not> is_open openBracket then None
                else (let label = takeWhile (\<lambda>c. \<not> is_close c) r in
                      if label = [] then None
                      else (case dropWhile (\<lambda>c. \<not> is_close c) r of
                              [] \<Rightarrow> None
                            | closeBracket # rest \<Rightarrow>
                                Some (nodeId, openBracket, label, closeBracket, rest)))))"

text \<open>\<open>/^["'].*["']$/.test(t)\<close>\<close>

definition quote_wrapped :: "string \<Rightarrow> bool" where
  "quote_wrapped t =
     (2 \<le> length t \<and> is_quote (hd t) \<and> is_quote (last t)
      \<and> list_all (\<lambda>c. \<not> is_line_terminator c) (butlast (tl t)))"

text \<open>The replacement callback.\<close>

definition replace_label :: "string \<Rightarrow> char \<Rightarrow> string \<Rightarrow> char \<Rightarrow> string" where
  "replace_label nodeId openBracket label closeBracket =
     (if quote_wrapped (trim label) then nodeId @ [openBracket] @ label @ [closeBracket]
      else if list_ex is_special label
           then nodeId @ [openBracket] @ [CHR 0x22] @ label @ [CHR 0x22] @ [closeBracket]
      else nodeId @ [openBracket] @ label @ [closeBracket])"

text \<open>
  The global replace: the matches are taken from the left, each search starting where
  the last match ended; a character at which no match starts is copied.
\<close>

function wrap_labels :: "string \<Rightarrow> string" where
  "wrap_labels [] = []"
| "wrap_labels (c # cs) =
     (case match_node (c # cs) of
        Some (nodeId, openBracket, label, closeBracket, rest) \<Rightarrow>
          replace_label nodeId openBracket label closeBracket @ wrap_labels rest
      | None \<Rightarrow> c # wrap_labels cs)"
  by pat_completeness auto
termination
proof (relation "measure length")
  show "wf (measure length)" by simp
next
  fix c :: char and cs :: string and m nodeId y openBracket ya label yb closeBracket rest
  assume m: "match_node (c # cs) = Some m" and eqs: "(nodeId, y) = m" "(openBracket, ya) = y"
    "(label, yb) = ya" "(closeBracket, rest) = yb"
  from m eqs have "match_node (c # cs) = Some (nodeId, openBracket, label, closeBracket, rest)"
    by simp
  then obtain r where r: "dropWhile is_word (c # cs) = openBracket # r"
    and d: "dropWhile (\<lambda>c. \<not> is_close c) r = closeBracket # rest"
    by (auto simp: match_node_def Let_def split: if_splits list.splits)
  have "length (dropWhile (\<lambda>c. \<not> is_close c) r) \<le> length r" by (rule length_dropWhile_le)
  moreover have "length (dropWhile is_word (c # cs)) \<le> length (c # cs)"
    by (rule length_dropWhile_le)
  ultimately have "length rest < length (c # cs)" unfolding r d by simp
  then show "(rest, c # cs) \<in> measure length" by simp
next
  fix c :: char and cs :: string
  show "(cs, c # cs) \<in> measure length" by simp
qed

definition prepareChart :: "string \<Rightarrow> string" where
  "prepareChart code = wrap_labels (unescape_newlines (trim code))"


text \<open>
  The labels that the replace wraps in quotes: those of the matches whose label is not
  quote-wrapped and has a grammar-breaking character.
\<close>

function wrapped_labels :: "string \<Rightarrow> string list" where
  "wrapped_labels [] = []"
| "wrapped_labels (c # cs) =
     (case match_node (c # cs) of
        Some (nodeId, openBracket, label, closeBracket, rest) \<Rightarrow>
          (if \<not> quote_wrapped (trim label) \<and> list_ex is_special label then [label] else [])
          @ wrapped_labels rest
      | None \<Rightarrow> wrapped_labels cs)"
  by pat_completeness auto
termination
proof (relation "measure length")
  show "wf (measure length)" by simp
next
  fix c :: char and cs :: string and m nodeId y openBracket ya label yb closeBracket rest
  assume m: "match_node (c # cs) = Some m" and eqs: "(nodeId, y) = m" "(openBracket, ya) = y"
    "(label, yb) = ya" "(closeBracket, rest) = yb"
  from m eqs have "match_node (c # cs) = Some (nodeId, openBracket, label, closeBracket, rest)"
    by simp
  then obtain r where r: "dropWhile is_word (c # cs) = openBracket # r"
    and d: "dropWhile (\<lambda>c. \<not> is_close c) r = closeBracket # rest"
    by (auto simp: match_node_def Let_def split: if_splits list.splits)
  have "length (dropWhile (\<lambda>c. \<not> is_close c) r) \<le> length r" by (rule length_dropWhile_le)
  moreover have "length (dropWhile is_word (c # cs)) \<le> length (c # cs)"
    by (rule length_dropWhile_le)
  ultimately have "length rest < length (c # cs)" unfolding r d by simp
  then show "(rest, c # cs) \<in> measure length" by simp
next
  fix c :: char and cs :: string
  show "(cs, c # cs) \<in> measure length" by simp
qed

text \<open>A backslash followed by \<open>n\<close> somewhere in the text.\<close>

fun has_escape :: "string \<Rightarrow> bool" where
  "has_escape (a # b # cs) = ((a = CHR 0x5C \<and> b = CHR ''n'') \<or> has_escape (b # cs))"
| "has_escape cs = False"


section \<open>The diagram engine and the Mermaid component (components/Mermaid.tsx)\<close>

text \<open>
  One mounted component: its props and state, and what it is waiting for.
  \<open>awaiting_import\<close>: \<open>loadMermaid\<close> is suspended at \<open>await import('mermaid')\<close>;
  \<open>timer_set\<close>: the \<open>setTimeout(renderChart, 100)\<close> of the render effect is
  pending; \<open>renders_in_flight\<close>: calls of \<open>renderChart\<close> suspended at
  \<open>await mermaid.render\<close>.
\<close>

record mermaid_instance =
  chart :: string
  svg :: string
  isError :: bool
  isLoading :: bool
  awaiting_import :: bool
  timer_set :: bool
  renders_in_flight :: nat

text \<open>
  The module-level variables \<open>mermaidInitialized\<close> and \<open>mermaidModule\<close> (loaded or
  \<open>null\<close>), the mounted components, and two records of what was done: the number of
  calls of \<open>mermaid.initialize\<close> and the sources handed to \<open>mermaid.render\<close>.
\<close>

record mermaid_world =
  mermaidInitialized :: bool
  mermaidModule :: bool
  initialize_calls :: nat
  render_requests :: "(nat \<times> string) list"
  components :: "nat \<Rightarrow> mermaid_instance option"

definition initial_world :: mermaid_world where
  "initial_world =
     \<lparr> mermaidInitialized = False, mermaidModule = False, initialize_calls = 0,
       render_requests = [], components = (\<lambda>cid. None) \<rparr>"

definition update_component ::
  "nat \<Rightarrow> (mermaid_instance \<Rightarrow> mermaid_instance) \<Rightarrow> mermaid_world \<Rightarrow> mermaid_world" where
  "update_component cid f w =
     (case components w cid of
        None \<Rightarrow> w
      | Some inst \<Rightarrow> w\<lparr>components := (components w)(cid \<mapsto> f inst)\<rparr>)"

text \<open>
  \<open>loadMermaid\<close> from the point where the module is at hand: it initializes the
  engine unless the flag is set, sets the flag, and ends the component's loading state.
\<close>

definition finish_load :: "nat \<Rightarrow> mermaid_world \<Rightarrow> mermaid_world" where
  "finish_load cid w =
     update_component cid (\<lambda>inst. inst\<lparr>isLoading := False\<rparr>)
       (if \<not> mermaidInitialized w
        then w\<lparr>initialize_calls := initialize_calls w + 1, mermaidInitialized := True\<rparr>
        else w)"

text \<open>
  The effect with no dependencies, run once when the component has mounted: nothing to
  do when the engine is ready; otherwise \<open>loadMermaid\<close> runs, and waits for the
  import when the module is not loaded yet.
\<close>

definition load_effect :: "nat \<Rightarrow> mermaid_world \<Rightarrow> mermaid_world" where
  "load_effect cid w =
     (if mermaidInitialized w \<and> mermaidModule w
      then update_component cid (\<lambda>inst. inst\<lparr>isLoading := False\<rparr>) w
      else if \<not> mermaidModule w
      then update_component cid (\<lambda>inst. inst\<lparr>awaiting_import := True\<rparr>) w
      else finish_load cid w)"

text \<open>
  The effect that depends on \<open>[chart]\<close>, run when the component has mounted and when
  \<open>chart\<close> has changed: it returns at once when there is no chart or the engine is
  not ready, and sets the timer for \<open>renderChart\<close> otherwise.
\<close>

definition render_effect :: "nat \<Rightarrow> mermaid_world \<Rightarrow> mermaid_world" where
  "render_effect cid w =
     update_component cid
       (\<lambda>inst. if chart inst = [] \<or> \<not> mermaidInitialized w \<or> \<not> mermaidModule w
               then (if chart inst = [] then inst\<lparr>isLoading := False\<rparr> else inst)
               else inst\<lparr>timer_set := True\<rparr>) w"

text \<open>
  What the event loop delivers: a component mounts; an import settles; a timer fires; a
  render settles; the parent passes another chart.
\<close>

datatype mermaid_event =
    Mount nat string
  | ImportResolved nat
  | ImportRejected nat
  | TimerFired nat
  | RenderResolved nat string
  | RenderRejected nat
  | ChartChanged nat string

fun mermaid_step :: "mermaid_event \<Rightarrow> mermaid_world \<Rightarrow> mermaid_world" where
  "mermaid_step (Mount cid c) w =
     (case components w cid of
        Some inst \<Rightarrow> w
      | None \<Rightarrow>
          render_effect cid (load_effect cid
            (w\<lparr>components := (components w)(cid \<mapsto>
                 \<lparr> chart = c, svg = [], isError = False, isLoading = True,
                   awaiting_import = False, timer_set = False, renders_in_flight = 0 \<rparr>)\<rparr>)))"
| "mermaid_step (ImportResolved cid) w =
     (case components w cid of
        None \<Rightarrow> w
      | Some inst \<Rightarrow>
          if awaiting_import inst
          then finish_load cid
                 (update_component cid (\<lambda>inst. inst\<lparr>awaiting_import := False\<rparr>)
                    (w\<lparr>mermaidModule := True\<rparr>))
          else w)"
| "mermaid_step (ImportRejected cid) w =
     update_component cid
       (\<lambda>inst. if awaiting_import inst
               then inst\<lparr>isError := True, isLoading := False, awaiting_import := False\<rparr>
               else inst) w"
| "mermaid_step (TimerFired cid) w =
     (case components w cid of
        None \<Rightarrow> w
      | Some inst \<Rightarrow>
          if timer_set inst
          then (w\<lparr>render_requests := render_requests w @ [(cid, prepareChart (chart inst))]\<rparr>)
                 \<lparr>components := (components w)(cid \<mapsto>
                    inst\<lparr>timer_set := False, isError := False, isLoading := True, svg := [],
                         renders_in_flight := renders_in_flight inst + 1\<rparr>)\<rparr>
          else w)"
| "mermaid_step (RenderResolved cid renderedSvg) w =
     update_component cid
       (\<lambda>inst. if 0 < renders_in_flight inst
               then inst\<lparr>svg := renderedSvg, isLoading := False,
                         renders_in_flight := renders_in_flight inst - 1\<rparr>
               else inst) w"
| "mermaid_step (RenderRejected cid) w =
     update_component cid
       (\<lambda>inst. if 0 < renders_in_flight inst
               then inst\<lparr>isError := True, isLoading := False,
                         renders_in_flight := renders_in_flight inst - 1\<rparr>
               else inst) w"
| "mermaid_step (ChartChanged cid c) w =
     render_effect cid
       (update_component cid (\<lambda>inst. inst\<lparr>chart := c, timer_set := False\<rparr>) w)"

fun mermaid_run :: "mermaid_event list \<Rightarrow> mermaid_world \<Rightarrow> mermaid_world" where
  "mermaid_run [] w = w"
| "mermaid_run (e # es) w = mermaid_run es (mermaid_step e w)"

text \<open>What the component returns.\<close>

datatype mermaid_view = ShowsLoading | ShowsError string | ShowsNothing | ShowsDiagram string

definition mermaid_view_of :: "mermaid_instance \<Rightarrow> mermaid_view" where
  "mermaid_view_of inst =
     (if isLoading inst then ShowsLoading
      else if isError inst then ShowsError (chart inst)
      else if svg inst = [] then ShowsNothing
      else ShowsDiagram (svg inst))"


section \<open>Properties of the task API client\<close>

text \<open>
  C3 (as stated, refuted): on a 404 the synthesized record's error string is not the
  lower-case text \<open>task not found or expired\<close>; the code's literal starts with a
  capital letter.
\<close>

theorem getTaskStatus_404_message_counterexample:
  "getTaskStatus ''2026-01-01T00:00:00.000Z'' (AxiosError (Some 404)) ''t1''
     = Inr \<lparr> task_id = ''t1'', status = Failed, progress = 0,
             current_step = ''Task not found'',
             created_at = ''2026-01-01T00:00:00.000Z'',
             updated_at = ''2026-01-01T00:00:00.000Z'',
             result = None, error = Some ''Task not found or expired'' \<rparr>
   \<and> getTaskStatus ''2026-01-01T00:00:00.000Z'' (AxiosError (Some 404)) ''t1''
     \<noteq> Inr \<lparr> task_id = ''t1'', status = Failed, progress = 0,
             current_step = ''Task not found'',
             created_at = ''2026-01-01T00:00:00.000Z'',
             updated_at = ''2026-01-01T00:00:00.000Z'',
             result = None, error = Some ''task not found or expired'' \<rparr>"
  by (simp add: getTaskStatus_def)

text \<open>
  C3 (amended): \<open>getTaskStatus\<close> returns a synthesized terminal record exactly when
  the request fails with HTTP 404; that record has status failed, no result and the
  error string \<open>Task not found or expired\<close>. Every other failure of the request is
  rethrown to the caller, and a successful request returns the remote record unchanged.
\<close>

theorem getTaskStatus_contract:
  "(\<exists>r. getTaskStatus now (AxiosError (Some 404)) tid = Inr r
        \<and> task_id r = tid \<and> status r = Failed \<and> result r = None
        \<and> error r = Some ''Task not found or expired'')
   \<and> getTaskStatus now (HttpOk d) tid = Inr d
   \<and> (st \<noteq> Some 404 \<longrightarrow> getTaskStatus now (AxiosError st) tid = Inl (Rethrown_AxiosError st))
   \<and> getTaskStatus now OtherError tid = Inl Rethrown_OtherError
   \<and> ((\<exists>r. getTaskStatus now outcome tid = Inr r)
        \<longleftrightarrow> (\<exists>d. outcome = HttpOk d) \<or> outcome = AxiosError (Some 404))"
  by (cases outcome) (auto simp: getTaskStatus_def)

theorem getTaskStatus_contract_witness:
  "Some (500::nat) \<noteq> Some 404
   \<and> getTaskStatus ''now'' (AxiosError (Some 500)) ''t1'' = Inl (Rethrown_AxiosError (Some 500))
   \<and> getTaskStatus ''now'' (AxiosError None) ''t1'' = Inl (Rethrown_AxiosError None)"
  using getTaskStatus_contract [of "''now''" "''t1''" _ "Some 500"]
        getTaskStatus_contract [of "''now''" "''t1''" _ "None"]
  by simp

section \<open>Properties of the polling chain\<close>

lemma polls_map_Did [simp]: "polls (map (Did t) as @ tr) = polls tr"
  by (induction as) auto

lemma emitted_PollIssued [simp]: "emitted (PollIssued t i # tr) = emitted tr"
  by simp

lemma timeouts_PollIssued [simp]: "timeouts (PollIssued t i # tr) = timeouts tr"
  by simp

lemma watch_first: "\<exists>tr. watch env clock ts t tid outs = PollIssued t tid # tr"
  by (cases outs) (auto simp: Let_def)

lemma polls_watch_first: "(t, tid) \<in> set (polls (watch env clock ts t tid outs))"
  by (cases outs) (auto simp: Let_def)

lemma watch_resolved_non_terminal:
  assumes "status r = Pending \<or> status r = Processing"
  shows "watch env clock ts t tid ((lat, HttpOk r) # rest)
         = PollIssued t tid # Did (t + lat) (SetStatus r) # Did (t + lat) (SetTimeout 2000 tid)
             # watch env clock True (t + lat + 2000) tid rest"
  using assms by (auto simp: pollStatus_def getTaskStatus_def)

lemma watch_rejected:
  assumes "transport_error outcome"
  shows "watch env clock ts t tid ((lat, outcome) # rest)
         = PollIssued t tid # Did (t + lat) (SetTimeout 5000 tid)
             # watch env clock True (t + lat + 5000) tid rest"
  using assms by (cases outcome) (auto simp: pollStatus_def getTaskStatus_def transport_error_def)

lemma next_timer_append: "next_timer (as @ bs) = (case next_timer as of None \<Rightarrow> next_timer bs | Some x \<Rightarrow> Some x)"
  by (induction as rule: next_timer.induct) auto

lemma next_timer_syncRepository [simp]: "next_timer (syncRepository_call env r) = None"
  by (auto simp: syncRepository_call_def split: option.splits)

lemma emitted_Did_syncRepository [simp]: "emitted (map (Did t) (syncRepository_call env r) @ tr) = emitted tr"
  by (auto simp: syncRepository_call_def split: option.splits)

lemma timeouts_Did_syncRepository [simp]: "timeouts (map (Did t) (syncRepository_call env r) @ tr) = timeouts tr"
  by (auto simp: syncRepository_call_def split: option.splits)

lemma watch_resolved_terminal:
  assumes "status r = Completed \<or> status r = Failed"
  shows "polls (watch env clock ts t tid ((lat, HttpOk r) # rest)) = [(t, tid)]"
    and "emitted (watch env clock ts t tid ((lat, HttpOk r) # rest)) = [r]"
    and "timeouts (watch env clock ts t tid ((lat, HttpOk r) # rest)) = []"
    and "watch env clock ts t tid ((lat, HttpOk r) # rest) = watch env clock ts t tid [(lat, HttpOk r)]"
  using assms
  by (auto simp: pollStatus_def getTaskStatus_def next_timer_append split: option.splits)

lemma watch_run:
  assumes "list_all (\<lambda>p. non_terminal (snd p)) pre" and "status r = Completed \<or> status r = Failed"
  shows "length (polls (watch env clock ts t tid (pre @ (lat, HttpOk r) # post))) = length pre + 1
       \<and> list_all (\<lambda>p. snd p = tid) (polls (watch env clock ts t tid (pre @ (lat, HttpOk r) # post)))
       \<and> filter (\<lambda>x. status x = Completed \<or> status x = Failed)
           (emitted (watch env clock ts t tid (pre @ (lat, HttpOk r) # post))) = [r]
       \<and> last (emitted (watch env clock ts t tid (pre @ (lat, HttpOk r) # post))) = r
       \<and> length (timeouts (watch env clock ts t tid (pre @ (lat, HttpOk r) # post))) = length pre
       \<and> list_all (\<lambda>x. (fst (snd x) = 2000 \<or> fst (snd x) = 5000)
                      \<and> (fst x + fst (snd x), tid) \<in> set (polls (watch env clock ts t tid (pre @ (lat, HttpOk r) # post))))
           (timeouts (watch env clock ts t tid (pre @ (lat, HttpOk r) # post)))"
  using assms(1)
proof (induction pre arbitrary: ts t)
  case Nil
  show ?case using watch_resolved_terminal[OF assms(2), of env clock ts t tid lat post] assms(2)
    by (simp del: watch.simps)
next
  case (Cons p pre)
  obtain l out where p: "p = (l, out)" by (cases p)
  from Cons.prems p have nt: "non_terminal out" and rest: "list_all (\<lambda>p. non_terminal (snd p)) pre" by auto
  note IH = Cons.IH[OF rest]
  let ?tl = "pre @ (lat, HttpOk r) # post"
  show ?case
  proof (cases out)
    case (HttpOk d)
    with nt have st: "status d = Pending \<or> status d = Processing" by (simp add: non_terminal_def)
    have eq: "watch env clock ts t tid ((p # pre) @ (lat, HttpOk r) # post)
          = PollIssued t tid # Did (t + l) (SetStatus d) # Did (t + l) (SetTimeout 2000 tid)
             # watch env clock True (t + l + 2000) tid ?tl"
      using watch_resolved_non_terminal[OF st] by (simp only: p HttpOk append_Cons)
    have ne: "emitted (watch env clock True (t + l + 2000) tid ?tl) \<noteq> []"
      using IH[of True "t + l + 2000"] by auto
    show ?thesis unfolding eq using IH[of True "t + l + 2000"] st ne
      polls_watch_first[of "t + l + 2000" tid env clock True ?tl]
      by (auto simp: list_all_iff)
  next
    case (AxiosError st)
    with nt have te: "transport_error out" by (simp add: non_terminal_def)
    have eq: "watch env clock ts t tid ((p # pre) @ (lat, HttpOk r) # post)
          = PollIssued t tid # Did (t + l) (SetTimeout 5000 tid)
             # watch env clock True (t + l + 5000) tid ?tl"
      using watch_rejected[OF te] by (simp only: p append_Cons)
    show ?thesis unfolding eq using IH[of True "t + l + 5000"]
      polls_watch_first[of "t + l + 5000" tid env clock True ?tl]
      by (auto simp: list_all_iff)
  next
    case OtherError
    with nt have te: "transport_error out" by (simp add: non_terminal_def)
    have eq: "watch env clock ts t tid ((p # pre) @ (lat, HttpOk r) # post)
          = PollIssued t tid # Did (t + l) (SetTimeout 5000 tid)
             # watch env clock True (t + l + 5000) tid ?tl"
      using watch_rejected[OF te] by (simp only: p append_Cons)
    show ?thesis unfolding eq using IH[of True "t + l + 5000"]
      polls_watch_first[of "t + l + 5000" tid env clock True ?tl]
      by (auto simp: list_all_iff)
  qed
qed


text \<open>
  C2: the first poll is issued at once; after a poll that resolves with a pending or
  processing record the next poll for the same task id is set 2000 ms after the answer;
  after a poll that rejects with a transport error it is set 5000 ms after; and once a
  poll resolves with a completed or failed record, that record is emitted, no timer is
  set and no further poll is issued, whatever answers might still follow. On a whole
  run whose first terminal answer comes after \<open>pre\<close>, there are
  \<open>length pre + 1\<close> polls, all for the same id, each timer is followed by a poll
  exactly when it is due, and the terminal record is the one terminal record emitted,
  and the last.
\<close>

theorem pollStatus_watch_schedule:
  "(\<exists>tr. watch env clock ts t tid outs = PollIssued t tid # tr)
   \<and> (status r = Pending \<or> status r = Processing \<longrightarrow>
        watch env clock ts t tid ((lat, HttpOk r) # rest)
          = PollIssued t tid # Did (t + lat) (SetStatus r) # Did (t + lat) (SetTimeout 2000 tid)
              # watch env clock True (t + lat + 2000) tid rest)
   \<and> (transport_error outcome \<longrightarrow>
        watch env clock ts t tid ((lat, outcome) # rest)
          = PollIssued t tid # Did (t + lat) (SetTimeout 5000 tid)
              # watch env clock True (t + lat + 5000) tid rest)
   \<and> (status r' = Completed \<or> status r' = Failed \<longrightarrow>
        polls (watch env clock ts t tid ((lat, HttpOk r') # rest)) = [(t, tid)]
        \<and> emitted (watch env clock ts t tid ((lat, HttpOk r') # rest)) = [r']
        \<and> timeouts (watch env clock ts t tid ((lat, HttpOk r') # rest)) = []
        \<and> watch env clock ts t tid ((lat, HttpOk r') # rest)
            = watch env clock ts t tid [(lat, HttpOk r')])
   \<and> (list_all (\<lambda>p. non_terminal (snd p)) pre \<and> (status r' = Completed \<or> status r' = Failed) \<longrightarrow>
        length (polls (watch env clock ts t tid (pre @ (lat, HttpOk r') # rest))) = length pre + 1
        \<and> list_all (\<lambda>p. snd p = tid) (polls (watch env clock ts t tid (pre @ (lat, HttpOk r') # rest)))
        \<and> filter (\<lambda>x. status x = Completed \<or> status x = Failed)
              (emitted (watch env clock ts t tid (pre @ (lat, HttpOk r') # rest))) = [r']
        \<and> last (emitted (watch env clock ts t tid (pre @ (lat, HttpOk r') # rest))) = r'
        \<and> length (timeouts (watch env clock ts t tid (pre @ (lat, HttpOk r') # rest))) = length pre
        \<and> list_all (\<lambda>x. (fst (snd x) = 2000 \<or> fst (snd x) = 5000)
                       \<and> (fst x + fst (snd x), tid)
                            \<in> set (polls (watch env clock ts t tid (pre @ (lat, HttpOk r') # rest))))
              (timeouts (watch env clock ts t tid (pre @ (lat, HttpOk r') # rest))))"
proof (intro conjI impI)
  show "\<exists>tr. watch env clock ts t tid outs = PollIssued t tid # tr"
    by (rule watch_first)
next
  assume "status r = Pending \<or> status r = Processing"
  then show "watch env clock ts t tid ((lat, HttpOk r) # rest)
          = PollIssued t tid # Did (t + lat) (SetStatus r) # Did (t + lat) (SetTimeout 2000 tid)
              # watch env clock True (t + lat + 2000) tid rest"
    by (rule watch_resolved_non_terminal)
next
  assume "transport_error outcome"
  then show "watch env clock ts t tid ((lat, outcome) # rest)
          = PollIssued t tid # Did (t + lat) (SetTimeout 5000 tid)
              # watch env clock True (t + lat + 5000) tid rest"
    by (rule watch_rejected)
next
  assume a: "status r' = Completed \<or> status r' = Failed"
  show "polls (watch env clock ts t tid ((lat, HttpOk r') # rest)) = [(t, tid)]"
    by (rule watch_resolved_terminal(1)[OF a])
  show "emitted (watch env clock ts t tid ((lat, HttpOk r') # rest)) = [r']"
    by (rule watch_resolved_terminal(2)[OF a])
  show "timeouts (watch env clock ts t tid ((lat, HttpOk r') # rest)) = []"
    by (rule watch_resolved_terminal(3)[OF a])
  show "watch env clock ts t tid ((lat, HttpOk r') # rest) = watch env clock ts t tid [(lat, HttpOk r')]"
    by (rule watch_resolved_terminal(4)[OF a])
next
  assume a: "list_all (\<lambda>p. non_terminal (snd p)) pre \<and> (status r' = Completed \<or> status r' = Failed)"
  note run = watch_run[of pre r' env clock ts t tid lat rest]
  from a run show "length (polls (watch env clock ts t tid (pre @ (lat, HttpOk r') # rest))) = length pre + 1"
    by blast
  from a run show "list_all (\<lambda>p. snd p = tid) (polls (watch env clock ts t tid (pre @ (lat, HttpOk r') # rest)))"
    by blast
  from a run show "filter (\<lambda>x. status x = Completed \<or> status x = Failed)
              (emitted (watch env clock ts t tid (pre @ (lat, HttpOk r') # rest))) = [r']"
    by blast
  from a run show "last (emitted (watch env clock ts t tid (pre @ (lat, HttpOk r') # rest))) = r'"
    by blast
  from a run show "length (timeouts (watch env clock ts t tid (pre @ (lat, HttpOk r') # rest))) = length pre"
    by blast
  from a run show "list_all (\<lambda>x. (fst (snd x) = 2000 \<or> fst (snd x) = 5000)
                       \<and> (fst x + fst (snd x), tid)
                            \<in> set (polls (watch env clock ts t tid (pre @ (lat, HttpOk r') # rest))))
              (timeouts (watch env clock ts t tid (pre @ (lat, HttpOk r') # rest)))"
    by blast
qed

theorem pollStatus_watch_schedule_witness:
  "status (example_record Processing) = Processing
   \<and> transport_error (AxiosError None)
   \<and> status (example_record Completed) = Completed
   \<and> list_all (\<lambda>p. non_terminal (snd p))
        [(30::nat, HttpOk (example_record Processing)), (10, AxiosError None)]
   \<and> polls (watch example_env (\<lambda>t. ''now'') False 0 ''t1''
        ([(30, HttpOk (example_record Processing)), (10, AxiosError None)]
           @ (30, HttpOk (example_record Completed)) # [(5, HttpOk (example_record Processing))]))
      = [(0, ''t1''), (2030, ''t1''), (7040, ''t1'')]
   \<and> last (emitted (watch example_env (\<lambda>t. ''now'') False 0 ''t1''
        ([(30, HttpOk (example_record Processing)), (10, AxiosError None)]
           @ (30, HttpOk (example_record Completed)) # [(5, HttpOk (example_record Processing))])))
      = example_record Completed
   \<and> length (timeouts (watch example_env (\<lambda>t. ''now'') False 0 ''t1''
        ([(30, HttpOk (example_record Processing)), (10, AxiosError None)]
           @ (30, HttpOk (example_record Completed)) # [(5, HttpOk (example_record Processing))])))
      = 2"
proof -
  have h: "list_all (\<lambda>p. non_terminal (snd p))
        [(30::nat, HttpOk (example_record Processing)), (10, AxiosError None)]
        \<and> (status (example_record Completed) = Completed \<or> status (example_record Completed) = Failed)"
    by (simp add: non_terminal_def transport_error_def example_record_def)
  have p: "polls (watch example_env (\<lambda>t. ''now'') False 0 ''t1''
        ([(30, HttpOk (example_record Processing)), (10, AxiosError None)]
           @ (30, HttpOk (example_record Completed)) # [(5, HttpOk (example_record Processing))]))
      = [(0, ''t1''), (2030, ''t1''), (7040, ''t1'')]"
    by (simp add: pollStatus_def getTaskStatus_def example_record_def example_env_def
        syncRepository_call_def)
  have s1: "status (example_record Processing) = Processing"
    and s2: "status (example_record Completed) = Completed"
    and s3: "transport_error (AxiosError None)"
    by (simp_all add: example_record_def transport_error_def)
  from h pollStatus_watch_schedule [of example_env "\<lambda>t. ''now''" False 0 "''t1''" "[]"
      "example_record Processing" 30 "[(5, HttpOk (example_record Processing))]"
      "AxiosError None" "example_record Completed"
      "[(30, HttpOk (example_record Processing)), (10, AxiosError None)]"]
  have "last (emitted (watch example_env (\<lambda>t. ''now'') False 0 ''t1''
        ([(30, HttpOk (example_record Processing)), (10, AxiosError None)]
           @ (30, HttpOk (example_record Completed)) # [(5, HttpOk (example_record Processing))])))
      = example_record Completed
   \<and> length (timeouts (watch example_env (\<lambda>t. ''now'') False 0 ''t1''
        ([(30, HttpOk (example_record Processing)), (10, AxiosError None)]
           @ (30, HttpOk (example_record Completed)) # [(5, HttpOk (example_record Processing))])))
      = length [(30::nat, HttpOk (example_record Processing)), (10, AxiosError None)]"
    by blast
  with h p s1 s2 s3 show ?thesis
    by (simp del: watch.simps)
qed

section \<open>Properties of the content lookup\<close>

lemma traverse_dfs: "traverse items acc = acc @ dfs items"
  by (induction items arbitrary: acc rule: dfs.induct) auto

lemma flattenStructure_dfs: "flattenStructure items = dfs items"
  by (simp add: flattenStructure_def traverse_dfs)

lemma find_app: "find P (xs @ ys) = (case find P xs of None \<Rightarrow> find P ys | Some x \<Rightarrow> Some x)"
  by (induction xs) auto

lemma findItemById_find:
  "findItemById items sel = find (\<lambda>it. item_id it = sel) (dfs items)"
  by (induction items rule: dfs.induct) (auto simp: find_app split: option.splits)

lemma findIndex_ge: "- 1 \<le> findIndex P xs"
  by (induction xs) (auto simp: Let_def)

lemma findIndex_none: "findIndex P xs = - 1 \<longleftrightarrow> (\<forall>x\<in>set xs. \<not> P x)"
proof (induction xs)
  case Nil then show ?case by simp
next
  case (Cons x xs)
  with findIndex_ge[of P xs] show ?case by (auto simp: Let_def)
qed

lemma findIndex_first:
  assumes "i < length xs" "P (xs ! i)" "\<forall>j<i. \<not> P (xs ! j)"
  shows "findIndex P xs = int i"
  using assms
proof (induction xs arbitrary: i)
  case Nil then show ?case by simp
next
  case (Cons x xs)
  show ?case
  proof (cases i)
    case 0 with Cons.prems show ?thesis by simp
  next
    case (Suc k)
    with Cons.prems have nx: "\<not> P x" by auto
    from Suc Cons.prems have "k < length xs" "P (xs ! k)" "\<forall>j<k. \<not> P (xs ! j)" by auto
    from Cons.IH[OF this] Suc nx show ?thesis by (simp add: Let_def)
  qed
qed

lemma findIndex_found:
  assumes "\<exists>x\<in>set xs. P x"
  shows "\<exists>i<length xs. findIndex P xs = int i \<and> P (xs ! i) \<and> (\<forall>j<i. \<not> P (xs ! j))"
  using assms
proof (induction xs)
  case Nil then show ?case by simp
next
  case (Cons x xs)
  show ?case
  proof (cases "P x")
    case True then show ?thesis by (intro exI[of _ 0]) simp
  next
    case False
    with Cons.prems have "\<exists>x\<in>set xs. P x" by auto
    from Cons.IH[OF this] obtain i where i: "i < length xs" "findIndex P xs = int i" "P (xs ! i)" "\<forall>j<i. \<not> P (xs ! j)" by blast
    show ?thesis
    proof (intro exI[of _ "Suc i"] conjI allI impI)
      show "Suc i < length (x # xs)" using i by simp
      show "findIndex P (x # xs) = int (Suc i)" using i False by (simp add: Let_def)
      show "P ((x # xs) ! Suc i)" using i by simp
      fix j assume "j < Suc i" then show "\<not> P ((x # xs) ! j)" using i False by (cases j) auto
    qed
  qed
qed

lemma fetchPage_url_absent:
  assumes "sel \<notin> item_id ` set (flattenStructure structure)"
  shows "fetchPage_url structure sel urls = Inl ''Page not found in structure''"
proof -
  from assms have "find (\<lambda>it. item_id it = sel) (dfs structure) = None"
    by (auto simp: find_None_iff flattenStructure_dfs)
  then show ?thesis by (simp add: fetchPage_url_def findItemById_find)
qed

lemma fetchPage_url_present:
  assumes "i < length (flattenStructure structure)"
    and "item_id (flattenStructure structure ! i) = sel"
    and "\<forall>j<i. item_id (flattenStructure structure ! j) \<noteq> sel"
  shows "fetchPage_url structure sel urls =
           (if length urls \<le> i then Inl (''Content URL not found for '' @ sel) else Inr (urls ! i))"
proof -
  have "findIndex (\<lambda>it. item_id it = sel) (flattenStructure structure) = int i"
    using assms by (intro findIndex_first) auto
  moreover have "find (\<lambda>it. item_id it = sel) (dfs structure) \<noteq> None"
    using assms by (auto simp: find_None_iff flattenStructure_dfs dest: nth_mem)
  ultimately show ?thesis
    by (auto simp: fetchPage_url_def findItemById_find Let_def)
qed

lemma fetchPage_url_in_list:
  assumes "fetchPage_url structure sel urls = Inr u"
  shows "u \<in> set urls"
  using assms findIndex_ge[of "\<lambda>it. item_id it = sel" "flattenStructure structure"]
  by (auto simp: fetchPage_url_def Let_def split: option.splits if_splits)

lemma match_loop_find: "match_loop pn item urls = find (url_matches pn item) urls"
  by (induction urls) auto

lemma url_matches_exact:
  "extractFilename pn u = Some (expectedFilename item) \<Longrightarrow> url_matches pn item u"
  by (simp add: url_matches_def)

lemma by_filename_first:
  assumes "findItemById structure sel = Some item" and "u \<in> set urls" and "url_matches pn item u"
  shows "\<exists>i<length urls. fetchPage_url_by_filename pn structure sel urls = Inr (urls ! i)
           \<and> url_matches pn item (urls ! i) \<and> (\<forall>j<i. \<not> url_matches pn item (urls ! j))"
proof -
  from assms(2,3) have "find (url_matches pn item) urls \<noteq> None"
    by (auto simp: find_None_iff)
  then obtain v where v: "find (url_matches pn item) urls = Some v" by auto
  then obtain i where "i < length urls" "url_matches pn item (urls ! i)" "v = urls ! i"
      "\<forall>j<i. \<not> url_matches pn item (urls ! j)"
    by (auto simp: find_Some_iff)
  with v assms(1) show ?thesis
    by (auto simp: fetchPage_url_by_filename_def match_loop_find)
qed

lemma by_filename_at:
  assumes "findItemById structure sel = Some item" and "k < length urls"
    and "url_matches pn item (urls ! k)" and "\<forall>j<k. \<not> url_matches pn item (urls ! j)"
  shows "fetchPage_url_by_filename pn structure sel urls = Inr (urls ! k)"
proof -
  from assms(2-4) have "find (url_matches pn item) urls = Some (urls ! k)"
    by (auto simp: find_Some_iff)
  with assms(1) show ?thesis
    by (simp add: fetchPage_url_by_filename_def match_loop_find)
qed




text \<open>
  C10 (as stated, refuted): an id that is absent from the flattened tree does not give
  the \<open>Content URL not found\<close> error. \<open>findItemById\<close> has already failed, and
  the error thrown is \<open>Page not found in structure\<close>.
\<close>

theorem fetchPage_url_absent_counterexample:
  "''setup'' \<notin> item_id ` set (flattenStructure example_structure)
   \<and> fetchPage_url example_structure ''setup'' [''https://h/p/overview.json'']
       = Inl ''Page not found in structure''
   \<and> fetchPage_url example_structure ''setup'' [''https://h/p/overview.json'']
       \<noteq> Inl (''Content URL not found for '' @ ''setup'')"
  by (simp add: fetchPage_url_def example_structure_def flattenStructure_def)

text \<open>
  C10 (amended): in the positional fetch, a selected id that is absent from the
  depth-first flattening fails with \<open>Page not found in structure\<close>; an id whose
  first depth-first index is at or beyond the length of the URL list fails with
  \<open>Content URL not found for <id>\<close>; otherwise the URL is exactly the one at that
  index. A URL that is returned is an element of the list: nothing is read out of
  bounds, clamped or wrapped around.
\<close>

theorem fetchPage_url_positional:
  "(sel \<notin> item_id ` set (flattenStructure structure) \<longrightarrow>
      fetchPage_url structure sel urls = Inl ''Page not found in structure'')
   \<and> (i < length (flattenStructure structure)
        \<and> item_id (flattenStructure structure ! i) = sel
        \<and> (\<forall>j<i. item_id (flattenStructure structure ! j) \<noteq> sel) \<longrightarrow>
        (length urls \<le> i \<longrightarrow>
           fetchPage_url structure sel urls = Inl (''Content URL not found for '' @ sel))
        \<and> (i < length urls \<longrightarrow> fetchPage_url structure sel urls = Inr (urls ! i)))
   \<and> (fetchPage_url structure sel urls = Inr u \<longrightarrow> u \<in> set urls)"
  using fetchPage_url_absent[of sel "structure" urls]
        fetchPage_url_present[of i "structure" sel urls]
        fetchPage_url_in_list[of "structure" sel urls u]
  by auto

theorem fetchPage_url_positional_witness:
  "''setup'' \<notin> item_id ` set (flattenStructure example_structure)
   \<and> fetchPage_url example_structure ''setup'' [''https://h/p/overview.json'']
       = Inl ''Page not found in structure''
   \<and> (1::nat) < length (flattenStructure example_structure)
   \<and> item_id (flattenStructure example_structure ! 1) = ''intro''
   \<and> item_id (flattenStructure example_structure ! 0) \<noteq> ''intro''
   \<and> fetchPage_url example_structure ''intro'' [''https://h/p/overview.json'']
       = Inl ''Content URL not found for intro''
   \<and> fetchPage_url example_structure ''intro''
         [''https://h/p/overview.json'', ''https://h/p/intro.json'']
       = Inr ''https://h/p/intro.json''"
proof -
  have a: "''setup'' \<notin> item_id ` set (flattenStructure example_structure)"
    by (simp add: example_structure_def flattenStructure_def)
  have b: "(1::nat) < length (flattenStructure example_structure)
     \<and> item_id (flattenStructure example_structure ! 1) = ''intro''
     \<and> (\<forall>j<1. item_id (flattenStructure example_structure ! j) \<noteq> ''intro'')"
    by (simp add: example_structure_def flattenStructure_def)
  from a b
    fetchPage_url_positional[of "''setup''" example_structure "[''https://h/p/overview.json'']" 1]
    fetchPage_url_positional[of "''intro''" example_structure "[''https://h/p/overview.json'']" 1]
    fetchPage_url_positional[of "''intro''" example_structure
       "[''https://h/p/overview.json'', ''https://h/p/intro.json'']" 1]
  show ?thesis by simp
qed

text \<open>
  C1 (as stated, refuted): the viewer of WikiViewer.tsx takes the URL at the node's
  depth-first index and never looks at file names. For the one-node tree
  \<open>{id: "intro", filename: "intro.json"}\<close> and the URLs ending in
  \<open>overview.json\<close> and \<open>intro.json\<close> it returns the first URL, although the
  second one carries the node's file name. In the earlier viewer an earlier URL that
  passes another alternative of the test (here: equal to \<open>id + ".json"\<close>) wins over
  a later URL whose last segment is the declared file name.
\<close>

theorem fetchPage_url_ignores_filename_counterexample:
  "extractFilename example_pathname ''https://h/p/intro.json'' = Some ''intro.json''
   \<and> fetchPage_url [WikiStructureItem ''intro'' ''Intro'' (Some ''intro.json'') None] ''intro''
         [''https://h/p/overview.json'', ''https://h/p/intro.json'']
       = Inr ''https://h/p/overview.json''
   \<and> fetchPage_url_by_filename example_pathname
         [WikiStructureItem ''overview'' ''Intro'' (Some ''intro.json'') None] ''overview''
         [''https://h/p/overview.json'', ''https://h/p/intro.json'']
       = Inr ''https://h/p/overview.json''"
  by (simp add: fetchPage_url_def flattenStructure_def fetchPage_url_by_filename_def
      url_matches_def extractFilename_def example_pathname_def last_segment_def
      expectedFilename_def remove_json_def)

text \<open>
  C1 (amended): in the viewer that matches by file name (unnamed/part_001), when the
  selected node's declared or derived file name equals the last path segment of some URL
  of the list, the lookup succeeds and returns the first URL of the list that passes the
  file-name test; it returns that very URL when no earlier URL passes the test. The
  result depends on the tree only through the node found, not on the node's position,
  and this viewer has no positional fallback. (The viewer of WikiViewer.tsx is
  positional only.)
\<close>

theorem fetchPage_url_by_filename_match:
  "(findItemById structure sel = Some item \<and> u \<in> set urls
      \<and> extractFilename pathname u = Some (expectedFilename item) \<longrightarrow>
      (\<exists>i<length urls.
          fetchPage_url_by_filename pathname structure sel urls = Inr (urls ! i)
          \<and> url_matches pathname item (urls ! i)
          \<and> (\<forall>j<i. \<not> url_matches pathname item (urls ! j))))
   \<and> (findItemById structure sel = Some item \<and> k < length urls
      \<and> extractFilename pathname (urls ! k) = Some (expectedFilename item)
      \<and> (\<forall>j<k. \<not> url_matches pathname item (urls ! j)) \<longrightarrow>
      fetchPage_url_by_filename pathname structure sel urls = Inr (urls ! k))
   \<and> (findItemById structure sel = findItemById structure' sel \<longrightarrow>
      fetchPage_url_by_filename pathname structure sel urls
        = fetchPage_url_by_filename pathname structure' sel urls)"
proof (intro conjI impI)
  assume a: "findItemById structure sel = Some item \<and> u \<in> set urls
      \<and> extractFilename pathname u = Some (expectedFilename item)"
  then have "url_matches pathname item u" by (simp add: url_matches_exact)
  with a show "\<exists>i<length urls.
          fetchPage_url_by_filename pathname structure sel urls = Inr (urls ! i)
          \<and> url_matches pathname item (urls ! i)
          \<and> (\<forall>j<i. \<not> url_matches pathname item (urls ! j))"
    by (intro by_filename_first) auto
next
  assume a: "findItemById structure sel = Some item \<and> k < length urls
      \<and> extractFilename pathname (urls ! k) = Some (expectedFilename item)
      \<and> (\<forall>j<k. \<not> url_matches pathname item (urls ! j))"
  then have "url_matches pathname item (urls ! k)" by (simp add: url_matches_exact)
  with a show "fetchPage_url_by_filename pathname structure sel urls = Inr (urls ! k)"
    by (intro by_filename_at) auto
next
  assume "findItemById structure sel = findItemById structure' sel"
  then show "fetchPage_url_by_filename pathname structure sel urls
        = fetchPage_url_by_filename pathname structure' sel urls"
    by (simp add: fetchPage_url_by_filename_def)
qed

theorem fetchPage_url_by_filename_match_witness:
  "findItemById example_structure ''intro''
     = Some (WikiStructureItem ''intro'' ''Intro'' (Some ''intro.json'') None)
   \<and> extractFilename example_pathname
        ([''https://h/p/overview.json'', ''https://h/p/intro.json''] ! 1)
      = Some (expectedFilename (WikiStructureItem ''intro'' ''Intro'' (Some ''intro.json'') None))
   \<and> \<not> url_matches example_pathname
          (WikiStructureItem ''intro'' ''Intro'' (Some ''intro.json'') None)
          ([''https://h/p/overview.json'', ''https://h/p/intro.json''] ! 0)
   \<and> fetchPage_url_by_filename example_pathname example_structure ''intro''
        [''https://h/p/overview.json'', ''https://h/p/intro.json'']
      = Inr ''https://h/p/intro.json''"
proof -
  let ?item = "WikiStructureItem ''intro'' ''Intro'' (Some ''intro.json'') None"
  let ?urls = "[''https://h/p/overview.json'', ''https://h/p/intro.json'']"
  have a: "findItemById example_structure ''intro'' = Some ?item"
    by (simp add: example_structure_def)
  have b: "extractFilename example_pathname (?urls ! 1) = Some (expectedFilename ?item)"
    by (simp add: extractFilename_def example_pathname_def last_segment_def expectedFilename_def)
  have c: "\<not> url_matches example_pathname ?item (?urls ! 0)"
    by (simp add: url_matches_def extractFilename_def example_pathname_def last_segment_def
        expectedFilename_def remove_json_def)
  then have d: "\<forall>j<1. \<not> url_matches example_pathname ?item (?urls ! j)" by simp
  from a b c d
    fetchPage_url_by_filename_match[of example_structure "''intro''" ?item _ ?urls
      example_pathname 1 example_structure]
  show ?thesis by simp
qed

text \<open>
  C7 (the viewer of WikiViewer.tsx breaks it): selecting the page \<open>intro\<close>, for which
  the list of one URL has no entry, sets the component's \<open>error\<close> state, and the
  component then shows the error message in place of the whole viewer; selecting the
  page \<open>overview\<close> afterwards, whose content loads, still shows the error message.
  A failed request for the page body does the same. The earlier viewer
  (unnamed/part_001) keeps the tree on screen on the same input.
\<close>

theorem fetchPage_error_replaces_viewer:
  "render (fetchPage [''https://h/p/overview.json''] (\<lambda>u. PageLoaded ''fetched'')
             (select_item ''intro'' example_state))
     = ErrorView ''Failed to load page content.''
   \<and> render (fetchPage [''https://h/p/overview.json''] (\<lambda>u. PageLoaded ''fetched'')
               (select_item ''overview''
                 (fetchPage [''https://h/p/overview.json''] (\<lambda>u. PageLoaded ''fetched'')
                   (select_item ''intro'' example_state))))
     = ErrorView ''Failed to load page content.''
   \<and> render (fetchPage [''https://h/p/overview.json'', ''https://h/p/intro.json'']
               (\<lambda>u. PageRequestFailed) (select_item ''intro'' example_state))
     = ErrorView ''Failed to load page content.''
   \<and> render (fetchPage_by_filename example_pathname [''https://h/p/overview.json'']
               (\<lambda>u. PageLoaded ''fetched'') (select_item ''intro'' example_state))
     = WikiView example_structure (Some ''overview page'') False"
  by (simp add: render_def fetchPage_def fetchPage_by_filename_def select_item_def
      example_state_def example_structure_def fetchPage_url_def flattenStructure_def
      fetchPage_url_by_filename_def url_matches_def extractFilename_def
      example_pathname_def last_segment_def expectedFilename_def remove_json_def)

section \<open>Properties of the structure normalizer and the content parser\<close>

lemmas pcs_eval = has_content_shape_def field_def shaped_content_def plain_content_def
  startsWith_def trim_def is_space_def example_parse_def js_or_def empty_content_def

lemma example_parse_shorter: "string_results_shorter example_parse"
  by (auto simp: string_results_shorter_def example_parse_def split: if_splits)

lemma shaped_total:
  assumes "has_content_shape v"
  shows "parseContentSafely P v = Some (shaped_content P v)"
  using assms by (subst parseContentSafely.simps) simp

lemma unshaped_not_string:
  assumes "\<not> has_content_shape v" and "\<not> is_string v"
  shows "parseContentSafely P v = Some empty_content"
  using assms by (subst parseContentSafely.simps) (cases v; simp)

lemma parse_total_aux:
  assumes P: "string_results_shorter P"
  shows "\<forall>s. length s = n \<longrightarrow>
           (\<exists>c. parseContentSafely P (JStr s) = Some c
              \<and> (c = empty_content \<or> (\<exists>w. has_content_shape w \<and> c = shaped_content P w)))"
proof (induction n rule: less_induct)
  case (less n)
  show ?case
  proof (intro allI impI)
    fix s :: string assume len: "length s = n"
    have ns: "\<not> has_content_shape (JStr s)" by (simp add: has_content_shape_def)
    show "\<exists>c. parseContentSafely P (JStr s) = Some c
              \<and> (c = empty_content \<or> (\<exists>w. has_content_shape w \<and> c = shaped_content P w))"
    proof (cases "P s")
      case None
      then show ?thesis using ns by (subst parseContentSafely.simps) simp
    next
      case (Some parsed)
      have step: "parseContentSafely P (JStr s) = parseContentSafely P parsed"
        using ns Some by (subst parseContentSafely.simps) simp
      show ?thesis
      proof (cases "has_content_shape parsed")
        case True
        then show ?thesis unfolding step by (auto simp: shaped_total)
      next
        case False
        show ?thesis
        proof (cases parsed)
          case (JStr t)
          with Some P have "length t < n" using len by (auto simp: string_results_shorter_def)
          with less.IH JStr show ?thesis unfolding step by blast
        qed (use False in \<open>simp_all add: step unshaped_not_string\<close>)
      qed
    qed
  qed
qed

lemma parse_total:
  assumes "string_results_shorter P"
  shows "\<exists>c. parseContentSafely P v = Some c
           \<and> (c = empty_content \<or> (\<exists>w. has_content_shape w \<and> c = shaped_content P w))"
proof (cases "has_content_shape v")
  case True then show ?thesis by (auto simp: shaped_total)
next
  case False
  show ?thesis
  proof (cases v)
    case (JStr s)
    with parse_total_aux[OF assms, of "length s"] show ?thesis by blast
  qed (use False in \<open>simp_all add: unshaped_not_string\<close>)
qed


lemma unparsed_string:
  assumes "P s = None"
  shows "parseContentSafely P (JStr s) = Some empty_content"
  using assms by (subst parseContentSafely.simps) (simp add: has_content_shape_def)

lemma shaped_plain:
  assumes "has_content_shape w" and "field w ''intro'' = JStr s"
    and "\<not> startsWith (trim s) ''{'' \<or> P s = None"
  shows "shaped_content P w = plain_content w"
  using assms by (auto simp: shaped_content_def)

lemma plain_fields:
  assumes "has_content_shape w"
  shows "is_string (intro (plain_content w))" and "intro (plain_content w) = field w ''intro''"
    and "is_array (sections (plain_content w))" and "sections (plain_content w) = field w ''sections''"
    and "mermaid (plain_content w) = js_or (field w ''mermaid'') (JStr [])"
  using assms
  by (auto simp: plain_content_def has_content_shape_def js_or_def elim: is_array.elims)

lemma shaped_parsed:
  assumes "has_content_shape raw" and "field raw ''intro'' = JStr s"
    and "startsWith (trim s) ''{''" and "P s = Some p" and "p \<noteq> JNull" and "p \<noteq> JUndefined"
  shows "parseContentSafely P raw =
           Some \<lparr> intro = (if truthy (field p ''intro'') then field p ''intro'' else JStr s),
                  sections = (if truthy (field p ''sections'') then field p ''sections''
                              else field raw ''sections''),
                  mermaid = (if truthy (field p ''mermaid'') then field p ''mermaid''
                             else if truthy (field raw ''mermaid'') then field raw ''mermaid''
                             else JStr []) \<rparr>"
proof -
  from assms(5,6) have g: "\<And>k. get_prop p k = Some (field p k)"
    by (cases p) (simp_all add: field_def)
  from assms(1) have "truthy (field raw ''sections'')"
    by (auto simp: has_content_shape_def elim: is_array.elims)
  with assms(2-4) g show ?thesis
    by (simp add: shaped_total[OF assms(1)] shaped_content_def js_or_def)
qed


lemma collect_map_Inr:
  "collect (map f xs) = Inr ys \<Longrightarrow>
     length ys = length xs \<and> (\<forall>k<length xs. f (xs ! k) = Inr (ys ! k))"
proof (induction xs arbitrary: ys)
  case Nil then show ?case by simp
next
  case (Cons x xs)
  then obtain y where y: "f x = Inr y" by (cases "f x") auto
  with Cons.prems obtain zs where zs: "collect (map f xs) = Inr zs" "ys = y # zs"
    by (cases "collect (map f xs)") auto
  from Cons.IH[OF zs(1)] y zs(2) show ?case by (auto simp: nth_Cons split: nat.splits)
qed

lemma normalizeStructure_items:
  assumes "normalizeStructure data = Inr ns"
  shows "\<exists>items. node_list data = Inr items \<and> length ns = length items
           \<and> (\<forall>k<length items. normalizeItem (items ! k) = Inr (ns ! k))"
proof -
  from assms obtain items where i: "node_list data = Inr items"
    and c: "collect (map normalizeItem items) = Inr ns"
    by (auto simp: normalizeStructure_def split: sum.splits)
  from collect_map_Inr[OF c] i show ?thesis by auto
qed

lemma derive_id_Inr:
  assumes "derive_id vid vsec vfile = Inr i"
  shows "i = (if truthy vid then vid
              else if truthy vsec then vsec
              else (case vfile of
                      JStr f \<Rightarrow> if remove_json f \<noteq> [] then JStr (remove_json f) else JStr ''unknown''
                    | _ \<Rightarrow> JStr ''unknown''))"
  using assms by (auto simp: derive_id_def js_or_def split: if_splits jsval.splits)

lemma get_prop_field: "get_prop item k = Some v \<Longrightarrow> field item k = v"
  by (simp add: field_def)

lemma normalizeItem_fields:
  assumes "normalizeItem item = Inr n"
  shows "nid n = (if truthy (field item ''id'') then field item ''id''
              else if truthy (field item ''section_id'') then field item ''section_id''
              else (case field item ''filename'' of
                      JStr f \<Rightarrow> if remove_json f \<noteq> [] then JStr (remove_json f) else JStr ''unknown''
                    | _ \<Rightarrow> JStr ''unknown''))"
    and "truthy (field item ''filename'') \<Longrightarrow> nfilename n = field item ''filename''"
    and "\<not> truthy (field item ''filename'') \<Longrightarrow>
           \<exists>t. to_string (nid n) = Some t \<and> nfilename n = JStr (t @ ''.json'')"
    and "nchildren n = field item ''children''"
proof -
  from assms obtain vid i fn where v: "get_prop item ''id'' = Some vid"
    and d: "derive_id vid (field item ''section_id'') (field item ''filename'') = Inr i"
    and f: "(if truthy (field item ''filename'') then Inr (field item ''filename'') else json_name i) = Inr fn"
    and n: "n = \<lparr> nid = i, ntitle = js_or (js_or (field item ''title'') (field item ''name'')) (JStr ''Untitled''),
                   nfilename = fn, nchildren = field item ''children'' \<rparr>"
    by (auto simp: normalizeItem_def split: option.splits sum.splits)
  from derive_id_Inr[OF d] get_prop_field[OF v] n
  show "nid n = (if truthy (field item ''id'') then field item ''id''
              else if truthy (field item ''section_id'') then field item ''section_id''
              else (case field item ''filename'' of
                      JStr f \<Rightarrow> if remove_json f \<noteq> [] then JStr (remove_json f) else JStr ''unknown''
                    | _ \<Rightarrow> JStr ''unknown''))" by simp
  from f n show "truthy (field item ''filename'') \<Longrightarrow> nfilename n = field item ''filename''" by simp
  from f n show "\<not> truthy (field item ''filename'') \<Longrightarrow>
           \<exists>t. to_string (nid n) = Some t \<and> nfilename n = JStr (t @ ''.json'')"
    by (auto simp: json_name_def split: option.splits)
  from n show "nchildren n = field item ''children''" by simp
qed

lemma normalizeItem_earlier_fields:
  assumes "normalizeItem_earlier item = Inr n"
  shows "nid n = (if truthy (field item ''id'') then field item ''id''
              else if truthy (field item ''section_id'') then field item ''section_id''
              else (case field item ''filename'' of
                      JStr f \<Rightarrow> if remove_json f \<noteq> [] then JStr (remove_json f) else JStr ''unknown''
                    | _ \<Rightarrow> JStr ''unknown''))"
    and "truthy (field item ''filename'') \<Longrightarrow> nfilename n = field item ''filename''"
    and "\<not> truthy (field item ''filename'') \<Longrightarrow> truthy (field item ''id'') \<or> truthy (field item ''section_id'') \<Longrightarrow>
           \<exists>t. to_string (nid n) = Some t \<and> nfilename n = JStr (t @ ''.json'')"
    and "\<not> truthy (field item ''filename'') \<Longrightarrow> \<not> truthy (field item ''id'') \<Longrightarrow> \<not> truthy (field item ''section_id'') \<Longrightarrow>
           nfilename n = JNull"
    and "nchildren n = field item ''children''"
proof -
  from assms obtain vid i fn where v: "get_prop item ''id'' = Some vid"
    and d: "derive_id vid (field item ''section_id'') (field item ''filename'') = Inr i"
    and f: "(if truthy (field item ''filename'') then Inr (field item ''filename'')
             else if truthy vid then json_name vid
             else if truthy (field item ''section_id'') then json_name (field item ''section_id'')
             else Inr JNull) = Inr fn"
    and n: "n = \<lparr> nid = i, ntitle = js_or (js_or (field item ''title'') (field item ''name'')) (JStr ''Untitled''),
                   nfilename = fn, nchildren = field item ''children'' \<rparr>"
    by (auto simp: normalizeItem_earlier_def split: option.splits sum.splits)
  note vf = get_prop_field[OF v]
  from derive_id_Inr[OF d] vf n
  show i: "nid n = (if truthy (field item ''id'') then field item ''id''
              else if truthy (field item ''section_id'') then field item ''section_id''
              else (case field item ''filename'' of
                      JStr f \<Rightarrow> if remove_json f \<noteq> [] then JStr (remove_json f) else JStr ''unknown''
                    | _ \<Rightarrow> JStr ''unknown''))" by simp
  from f n show "truthy (field item ''filename'') \<Longrightarrow> nfilename n = field item ''filename''" by simp
  from f n vf i show "\<not> truthy (field item ''filename'') \<Longrightarrow> truthy (field item ''id'') \<or> truthy (field item ''section_id'') \<Longrightarrow>
           \<exists>t. to_string (nid n) = Some t \<and> nfilename n = JStr (t @ ''.json'')"
    by (auto simp: json_name_def split: option.splits if_splits)
  from f n vf show "\<not> truthy (field item ''filename'') \<Longrightarrow> \<not> truthy (field item ''id'') \<Longrightarrow> \<not> truthy (field item ''section_id'') \<Longrightarrow>
           nfilename n = JNull" by simp
  from n show "nchildren n = field item ''children''" by simp
qed

lemma derive_id_strings:
  assumes "is_string a \<or> a = JUndefined" and "is_string b \<or> b = JUndefined"
    and "is_string c \<or> c = JUndefined"
  shows "\<exists>t. derive_id a b c = Inr (JStr t)"
  using assms by (cases a; cases b; cases c) (simp_all add: derive_id_def js_or_def)

lemma normalizeItem_succeeds:
  assumes "item = JObj kvs"
    and "is_string (field item ''filename'') \<or> field item ''filename'' = JUndefined"
    and "is_string (field item ''id'') \<or> field item ''id'' = JUndefined"
    and "is_string (field item ''section_id'') \<or> field item ''section_id'' = JUndefined"
  shows "\<exists>n. normalizeItem item = Inr n"
proof -
  have g: "get_prop item ''id'' = Some (field item ''id'')" using assms(1) by (simp add: field_def)
  from derive_id_strings[OF assms(3,4,2)] obtain t
    where d: "derive_id (field item ''id'') (field item ''section_id'') (field item ''filename'') = Inr (JStr t)"
    by blast
  have "json_name (JStr t) = Inr (JStr (t @ ''.json''))" by (simp add: json_name_def)
  with g d show ?thesis by (simp add: normalizeItem_def)
qed


text \<open>
  C6 (as stated, refuted): the children of a node are copied as they came and are not
  normalized. The child \<open>{section_id: "c", title: "C"}\<close> of node \<open>b\<close> keeps no
  \<open>id\<close> and no \<open>filename\<close> in the output, where the rule applied to it would give
  the id \<open>c\<close> and the file name \<open>c.json\<close>.
\<close>

theorem normalizeStructure_children_counterexample:
  "normalizeStructure
     (JObj [(''toc'', JArr [JObj [(''id'', JStr ''b''), (''title'', JStr ''B''),
        (''children'', JArr [JObj [(''section_id'', JStr ''c''), (''title'', JStr ''C'')]])]])])
     = Inr [\<lparr> nid = JStr ''b'', ntitle = JStr ''B'', nfilename = JStr ''b.json'',
               nchildren = JArr [JObj [(''section_id'', JStr ''c''), (''title'', JStr ''C'')]] \<rparr>]
   \<and> get_prop (JObj [(''section_id'', JStr ''c''), (''title'', JStr ''C'')]) ''id'' = Some JUndefined
   \<and> normalizeItem (JObj [(''section_id'', JStr ''c''), (''title'', JStr ''C'')])
     = Inr \<lparr> nid = JStr ''c'', ntitle = JStr ''C'', nfilename = JStr ''c.json'',
              nchildren = JUndefined \<rparr>"
  by (simp add: normalizeStructure_def node_list_def normalizeItem_def derive_id_def
      json_name_def field_def js_or_def)

text \<open>
  C6 (amended): every node of the node list itself (the top level) is normalized: its
  id is the explicit \<open>id\<close> if truthy, else \<open>section_id\<close> if truthy, else the file
  name with the first \<open>.json\<close> removed if that is a non-empty string, else
  \<open>unknown\<close>; its file name is the declared one if truthy, else the id followed by
  \<open>.json\<close>; its \<open>children\<close> field is the input's, unchanged, so nesting is
  preserved but nested nodes are not normalized. The earlier viewer has the same id and
  children, and builds a missing file name from \<open>id\<close> or \<open>section_id\<close> only
  (\<open>null\<close> when both are falsy). An object whose three fields are strings or absent is
  always normalized.
\<close>

theorem normalizeItem_derivation:
  "(normalizeStructure data = Inr ns \<longrightarrow>
      (\<exists>items. node_list data = Inr items \<and> length ns = length items
         \<and> (\<forall>k<length items. normalizeItem (items ! k) = Inr (ns ! k))))
   \<and> (normalizeItem item = Inr n \<longrightarrow>
        nid n = (if truthy (field item ''id'') then field item ''id''
                 else if truthy (field item ''section_id'') then field item ''section_id''
                 else (case field item ''filename'' of
                         JStr f \<Rightarrow> if remove_json f \<noteq> [] then JStr (remove_json f)
                                   else JStr ''unknown''
                       | _ \<Rightarrow> JStr ''unknown''))
        \<and> (truthy (field item ''filename'') \<longrightarrow> nfilename n = field item ''filename'')
        \<and> (\<not> truthy (field item ''filename'') \<longrightarrow>
             (\<exists>t. to_string (nid n) = Some t \<and> nfilename n = JStr (t @ ''.json'')))
        \<and> nchildren n = field item ''children'')
   \<and> (normalizeItem_earlier item = Inr n' \<longrightarrow>
        nid n' = (if truthy (field item ''id'') then field item ''id''
                  else if truthy (field item ''section_id'') then field item ''section_id''
                  else (case field item ''filename'' of
                          JStr f \<Rightarrow> if remove_json f \<noteq> [] then JStr (remove_json f)
                                    else JStr ''unknown''
                        | _ \<Rightarrow> JStr ''unknown''))
        \<and> (truthy (field item ''filename'') \<longrightarrow> nfilename n' = field item ''filename'')
        \<and> (\<not> truthy (field item ''filename'')
             \<and> (truthy (field item ''id'') \<or> truthy (field item ''section_id'')) \<longrightarrow>
             (\<exists>t. to_string (nid n') = Some t \<and> nfilename n' = JStr (t @ ''.json'')))
        \<and> (\<not> truthy (field item ''filename'') \<and> \<not> truthy (field item ''id'')
             \<and> \<not> truthy (field item ''section_id'') \<longrightarrow> nfilename n' = JNull)
        \<and> nchildren n' = field item ''children'')
   \<and> ((is_string (field (JObj kvs) ''filename'') \<or> field (JObj kvs) ''filename'' = JUndefined)
        \<and> (is_string (field (JObj kvs) ''id'') \<or> field (JObj kvs) ''id'' = JUndefined)
        \<and> (is_string (field (JObj kvs) ''section_id'') \<or> field (JObj kvs) ''section_id'' = JUndefined)
        \<longrightarrow> (\<exists>m. normalizeItem (JObj kvs) = Inr m))"
proof (intro conjI impI)
  assume "normalizeStructure data = Inr ns"
  then show "\<exists>items. node_list data = Inr items \<and> length ns = length items
         \<and> (\<forall>k<length items. normalizeItem (items ! k) = Inr (ns ! k))"
    by (rule normalizeStructure_items)
next
  assume a: "normalizeItem item = Inr n"
  show "nid n = (if truthy (field item ''id'') then field item ''id''
                 else if truthy (field item ''section_id'') then field item ''section_id''
                 else (case field item ''filename'' of
                         JStr f \<Rightarrow> if remove_json f \<noteq> [] then JStr (remove_json f)
                                   else JStr ''unknown''
                       | _ \<Rightarrow> JStr ''unknown''))"
    by (rule normalizeItem_fields(1)[OF a])
  show "nchildren n = field item ''children''"
    by (rule normalizeItem_fields(4)[OF a])
  { assume "truthy (field item ''filename'')"
    then show "nfilename n = field item ''filename''" by (rule normalizeItem_fields(2)[OF a]) }
  { assume "\<not> truthy (field item ''filename'')"
    then show "\<exists>t. to_string (nid n) = Some t \<and> nfilename n = JStr (t @ ''.json'')"
      by (rule normalizeItem_fields(3)[OF a]) }
next
  assume a: "normalizeItem_earlier item = Inr n'"
  show "nid n' = (if truthy (field item ''id'') then field item ''id''
                  else if truthy (field item ''section_id'') then field item ''section_id''
                  else (case field item ''filename'' of
                          JStr f \<Rightarrow> if remove_json f \<noteq> [] then JStr (remove_json f)
                                    else JStr ''unknown''
                        | _ \<Rightarrow> JStr ''unknown''))"
    by (rule normalizeItem_earlier_fields(1)[OF a])
  show "nchildren n' = field item ''children''"
    by (rule normalizeItem_earlier_fields(5)[OF a])
  { assume "truthy (field item ''filename'')"
    then show "nfilename n' = field item ''filename''"
      by (rule normalizeItem_earlier_fields(2)[OF a]) }
  { assume "\<not> truthy (field item ''filename'')
             \<and> (truthy (field item ''id'') \<or> truthy (field item ''section_id''))"
    then show "\<exists>t. to_string (nid n') = Some t \<and> nfilename n' = JStr (t @ ''.json'')"
      using normalizeItem_earlier_fields(3)[OF a] by blast }
  { assume "\<not> truthy (field item ''filename'') \<and> \<not> truthy (field item ''id'')
             \<and> \<not> truthy (field item ''section_id'')"
    then show "nfilename n' = JNull"
      using normalizeItem_earlier_fields(4)[OF a] by blast }
next
  assume "(is_string (field (JObj kvs) ''filename'') \<or> field (JObj kvs) ''filename'' = JUndefined)
        \<and> (is_string (field (JObj kvs) ''id'') \<or> field (JObj kvs) ''id'' = JUndefined)
        \<and> (is_string (field (JObj kvs) ''section_id'') \<or> field (JObj kvs) ''section_id'' = JUndefined)"
  then show "\<exists>m. normalizeItem (JObj kvs) = Inr m"
    using normalizeItem_succeeds[of "JObj kvs" kvs] by blast
qed

theorem normalizeItem_derivation_witness:
  "normalizeStructure (JArr [JObj [(''section_id'', JStr ''c''), (''title'', JStr ''C'')],
                             JObj [(''filename'', JStr ''setup.json'')]])
     = Inr [\<lparr> nid = JStr ''c'', ntitle = JStr ''C'', nfilename = JStr ''c.json'',
               nchildren = JUndefined \<rparr>,
            \<lparr> nid = JStr ''setup'', ntitle = JStr ''Untitled'', nfilename = JStr ''setup.json'',
               nchildren = JUndefined \<rparr>]
   \<and> normalizeItem_earlier (JObj [(''title'', JStr ''C'')])
     = Inr \<lparr> nid = JStr ''unknown'', ntitle = JStr ''C'', nfilename = JNull,
              nchildren = JUndefined \<rparr>
   \<and> nid \<lparr> nid = JStr ''c'', ntitle = JStr ''C'', nfilename = JStr ''c.json'',
            nchildren = JUndefined \<rparr> = field (JObj [(''section_id'', JStr ''c''), (''title'', JStr ''C'')]) ''section_id''
   \<and> (\<exists>m. normalizeItem (JObj [(''title'', JStr ''C'')]) = Inr m)"
proof -
  let ?c = "JObj [(''section_id'', JStr ''c''), (''title'', JStr ''C'')]"
  let ?nc = "\<lparr> nid = JStr ''c'', ntitle = JStr ''C'', nfilename = JStr ''c.json'',
               nchildren = JUndefined \<rparr>"
  have a: "normalizeStructure (JArr [?c, JObj [(''filename'', JStr ''setup.json'')]])
     = Inr [?nc,
            \<lparr> nid = JStr ''setup'', ntitle = JStr ''Untitled'', nfilename = JStr ''setup.json'',
               nchildren = JUndefined \<rparr>]"
    by (simp add: normalizeStructure_def node_list_def normalizeItem_def derive_id_def
        json_name_def field_def js_or_def remove_json_def)
  have b: "normalizeItem ?c = Inr ?nc"
    by (simp add: normalizeItem_def derive_id_def json_name_def field_def js_or_def)
  have c: "normalizeItem_earlier (JObj [(''title'', JStr ''C'')])
     = Inr \<lparr> nid = JStr ''unknown'', ntitle = JStr ''C'', nfilename = JNull,
              nchildren = JUndefined \<rparr>"
    by (simp add: normalizeItem_earlier_def derive_id_def json_name_def field_def js_or_def)
  have d: "(is_string (field (JObj [(''title'', JStr ''C'')]) ''filename'')
              \<or> field (JObj [(''title'', JStr ''C'')]) ''filename'' = JUndefined)
        \<and> (is_string (field (JObj [(''title'', JStr ''C'')]) ''id'')
              \<or> field (JObj [(''title'', JStr ''C'')]) ''id'' = JUndefined)
        \<and> (is_string (field (JObj [(''title'', JStr ''C'')]) ''section_id'')
              \<or> field (JObj [(''title'', JStr ''C'')]) ''section_id'' = JUndefined)"
    by (simp add: field_def)
  have e: "\<not> truthy (field ?c ''id'') \<and> truthy (field ?c ''section_id'')"
    by (simp add: field_def)
  from b d e normalizeItem_derivation[of _ _ ?c ?nc _ "[(''title'', JStr ''C'')]"]
  have "nid ?nc = field ?c ''section_id'' \<and> (\<exists>m. normalizeItem (JObj [(''title'', JStr ''C'')]) = Inr m)"
    by (simp del: normalized_item.simps)
  with a c show ?thesis by blast
qed

text \<open>
  C4 (as stated, refuted): the shape is not guaranteed. \<open>mermaid\<close> is never checked
  to be a string: the number \<open>5\<close> is returned as it is. An \<open>intro\<close> that is the
  serialized object \<open>{}\<close> parses, has no \<open>intro\<close> of its own, and is returned as
  it is, still a serialized object.
\<close>

theorem parseContentSafely_shape_counterexample:
  "parseContentSafely example_parse
     (JObj [(''intro'', JStr ''hello''), (''sections'', JArr []), (''mermaid'', JNum 5)])
     = Some \<lparr> intro = JStr ''hello'', sections = JArr [], mermaid = JNum 5 \<rparr>
   \<and> \<not> is_string (JNum 5)
   \<and> example_parse ''{}'' = Some (JObj [])
   \<and> parseContentSafely example_parse (JObj [(''intro'', JStr ''{}''), (''sections'', JArr [])])
     = Some \<lparr> intro = JStr ''{}'', sections = JArr [], mermaid = JStr [] \<rparr>"
  by (simp add: parseContentSafely.simps[of _ "JObj _"] pcs_eval)

text \<open>
  C4 (amended): \<open>parseContentSafely\<close> never throws, and (for a \<open>JSON.parse\<close> whose
  string results are shorter than the texts they come from) it always returns an object
  with the fields \<open>intro\<close>, \<open>sections\<close> and \<open>mermaid\<close>: the empty content
  \<open>{intro: "", sections: [], mermaid: ""}\<close>, or what the branch for an object with a
  string \<open>intro\<close> and an array \<open>sections\<close> builds. The empty content is what a value
  that is neither such an object nor a string, and a string that does not parse, give.
  For such an object whose \<open>intro\<close> does not start with \<open>{\<close> after trimming, or does
  not parse, \<open>intro\<close> is that string, \<open>sections\<close> is that array, and \<open>mermaid\<close>
  is the object's own \<open>mermaid\<close> when truthy (of whatever type) and \<open>""\<close> otherwise.
\<close>

theorem parseContentSafely_total:
  "(string_results_shorter JSON_parse \<longrightarrow>
      (\<exists>c. parseContentSafely JSON_parse v = Some c
         \<and> (c = empty_content
             \<or> (\<exists>w. has_content_shape w \<and> c = shaped_content JSON_parse w))))
   \<and> (\<not> has_content_shape v \<and> \<not> is_string v \<longrightarrow>
        parseContentSafely JSON_parse v = Some empty_content)
   \<and> (JSON_parse s = None \<longrightarrow> parseContentSafely JSON_parse (JStr s) = Some empty_content)
   \<and> (has_content_shape w \<and> field w ''intro'' = JStr t
        \<and> (\<not> startsWith (trim t) ''{'' \<or> JSON_parse t = None) \<longrightarrow>
        parseContentSafely JSON_parse w = Some (plain_content w)
        \<and> intro (plain_content w) = JStr t
        \<and> is_array (sections (plain_content w))
        \<and> sections (plain_content w) = field w ''sections''
        \<and> mermaid (plain_content w)
            = (if truthy (field w ''mermaid'') then field w ''mermaid'' else JStr []))"
proof (intro conjI impI)
  assume "string_results_shorter JSON_parse"
  then show "\<exists>c. parseContentSafely JSON_parse v = Some c
         \<and> (c = empty_content
             \<or> (\<exists>w. has_content_shape w \<and> c = shaped_content JSON_parse w))"
    by (rule parse_total)
next
  assume "\<not> has_content_shape v \<and> \<not> is_string v"
  then show "parseContentSafely JSON_parse v = Some empty_content"
    by (simp add: unshaped_not_string)
next
  assume "JSON_parse s = None"
  then show "parseContentSafely JSON_parse (JStr s) = Some empty_content"
    by (rule unparsed_string)
next
  assume a: "has_content_shape w \<and> field w ''intro'' = JStr t
        \<and> (\<not> startsWith (trim t) ''{'' \<or> JSON_parse t = None)"
  then have sh: "has_content_shape w" by simp
  from a have "shaped_content JSON_parse w = plain_content w"
    by (intro shaped_plain) auto
  then show "parseContentSafely JSON_parse w = Some (plain_content w)"
    by (simp add: shaped_total[OF sh])
  from a plain_fields(2)[OF sh] show "intro (plain_content w) = JStr t" by simp
  show "is_array (sections (plain_content w))" by (rule plain_fields(3)[OF sh])
  show "sections (plain_content w) = field w ''sections''" by (rule plain_fields(4)[OF sh])
  show "mermaid (plain_content w)
            = (if truthy (field w ''mermaid'') then field w ''mermaid'' else JStr [])"
    by (simp add: plain_fields(5)[OF sh] js_or_def)
qed

theorem parseContentSafely_total_witness:
  "string_results_shorter example_parse
   \<and> parseContentSafely example_parse (JStr ''\"{}\"'') = Some empty_content
   \<and> parseContentSafely example_parse (JNum 3) = Some empty_content
   \<and> example_parse ''not json'' = None
   \<and> parseContentSafely example_parse (JStr ''not json'') = Some empty_content
   \<and> has_content_shape (JObj [(''intro'', JStr ''hello''), (''sections'', JArr [JNum 1])])
   \<and> parseContentSafely example_parse
        (JObj [(''intro'', JStr ''hello''), (''sections'', JArr [JNum 1])])
      = Some \<lparr> intro = JStr ''hello'', sections = JArr [JNum 1], mermaid = JStr [] \<rparr>"
proof -
  let ?w = "JObj [(''intro'', JStr ''hello''), (''sections'', JArr [JNum 1])]"
  have a: "string_results_shorter example_parse" by (rule example_parse_shorter)
  have b: "parseContentSafely example_parse (JStr ''\"{}\"'') = Some empty_content"
    by (simp add: parseContentSafely.simps[of _ "JStr _"] parseContentSafely.simps[of _ "JObj _"]
        pcs_eval)
  have c: "\<not> has_content_shape (JNum 3) \<and> \<not> is_string (JNum 3)"
    by (simp add: has_content_shape_def)
  have d: "example_parse ''not json'' = None" by (simp add: example_parse_def)
  have e: "has_content_shape ?w \<and> field ?w ''intro'' = JStr ''hello''
        \<and> (\<not> startsWith (trim ''hello'') ''{'' \<or> example_parse ''hello'' = None)"
    by (simp add: pcs_eval)
  have f: "plain_content ?w = \<lparr> intro = JStr ''hello'', sections = JArr [JNum 1], mermaid = JStr [] \<rparr>"
    by (simp add: pcs_eval)
  from a c d e parseContentSafely_total[of example_parse "JNum 3" "''not json''" ?w "''hello''"]
  have "parseContentSafely example_parse (JNum 3) = Some empty_content
      \<and> parseContentSafely example_parse (JStr ''not json'') = Some empty_content
      \<and> parseContentSafely example_parse ?w = Some (plain_content ?w)"
    by blast
  with a b d e f show ?thesis by simp
qed

text \<open>
  C5 (as stated, refuted): a field that the parsed object holds but that is falsy is not
  taken from it. The serialized \<open>intro\<close> below parses to an object with the empty
  \<open>intro\<close>; the result's \<open>intro\<close> is not that empty string but the outer,
  serialized text.
\<close>

theorem parseContentSafely_falsy_field_counterexample:
  "example_parse ''{\"intro\":\"\",\"sections\":[]}''
     = Some (JObj [(''intro'', JStr []), (''sections'', JArr [])])
   \<and> parseContentSafely example_parse
        (JObj [(''intro'', JStr ''{\"intro\":\"\",\"sections\":[]}''), (''sections'', JArr [])])
     = Some \<lparr> intro = JStr ''{\"intro\":\"\",\"sections\":[]}'', sections = JArr [],
              mermaid = JStr [] \<rparr>
   \<and> JStr ''{\"intro\":\"\",\"sections\":[]}'' \<noteq> JStr []"
  by (simp add: parseContentSafely.simps[of _ "JObj _"] pcs_eval)

text \<open>
  C5 (amended): if the raw content is an object with string \<open>intro\<close> and array
  \<open>sections\<close>, and \<open>intro\<close> after trimming begins with \<open>{\<close> and parses to an
  object, the result takes each of \<open>intro\<close>, \<open>sections\<close>, \<open>mermaid\<close> from the
  parsed object when that field is truthy there, and from the outer object when it is
  missing or falsy (\<open>mermaid\<close> becomes \<open>""\<close> when falsy in both). In particular the
  literal \<open>{"intro":"real intro","sections":[]}\<close>, with no truthy outer \<open>mermaid\<close>,
  yields \<open>{intro: "real intro", sections: [], mermaid: ""}\<close>.
\<close>

theorem parseContentSafely_serialized_intro:
  "(has_content_shape raw \<and> field raw ''intro'' = JStr s \<and> startsWith (trim s) ''{''
      \<and> JSON_parse s = Some (JObj kvs) \<longrightarrow>
      parseContentSafely JSON_parse raw =
        Some \<lparr> intro = (if truthy (field (JObj kvs) ''intro'') then field (JObj kvs) ''intro''
                        else JStr s),
               sections = (if truthy (field (JObj kvs) ''sections'')
                           then field (JObj kvs) ''sections'' else field raw ''sections''),
               mermaid = (if truthy (field (JObj kvs) ''mermaid'')
                          then field (JObj kvs) ''mermaid''
                          else if truthy (field raw ''mermaid'') then field raw ''mermaid''
                          else JStr []) \<rparr>)
   \<and> (JSON_parse ''{\"intro\":\"real intro\",\"sections\":[]}''
        = Some (JObj [(''intro'', JStr ''real intro''), (''sections'', JArr [])])
      \<and> has_content_shape outer
      \<and> field outer ''intro'' = JStr ''{\"intro\":\"real intro\",\"sections\":[]}''
      \<and> \<not> truthy (field outer ''mermaid'') \<longrightarrow>
      parseContentSafely JSON_parse outer =
        Some \<lparr> intro = JStr ''real intro'', sections = JArr [], mermaid = JStr [] \<rparr>)"
proof (intro conjI impI)
  assume a: "has_content_shape raw \<and> field raw ''intro'' = JStr s \<and> startsWith (trim s) ''{''
      \<and> JSON_parse s = Some (JObj kvs)"
  then show "parseContentSafely JSON_parse raw =
        Some \<lparr> intro = (if truthy (field (JObj kvs) ''intro'') then field (JObj kvs) ''intro''
                        else JStr s),
               sections = (if truthy (field (JObj kvs) ''sections'')
                           then field (JObj kvs) ''sections'' else field raw ''sections''),
               mermaid = (if truthy (field (JObj kvs) ''mermaid'')
                          then field (JObj kvs) ''mermaid''
                          else if truthy (field raw ''mermaid'') then field raw ''mermaid''
                          else JStr []) \<rparr>"
    by (intro shaped_parsed) auto
next
  assume a: "JSON_parse ''{\"intro\":\"real intro\",\"sections\":[]}''
        = Some (JObj [(''intro'', JStr ''real intro''), (''sections'', JArr [])])
      \<and> has_content_shape outer
      \<and> field outer ''intro'' = JStr ''{\"intro\":\"real intro\",\"sections\":[]}''
      \<and> \<not> truthy (field outer ''mermaid'')"
  have st: "startsWith (trim ''{\"intro\":\"real intro\",\"sections\":[]}'') ''{''"
    by (simp add: startsWith_def trim_def is_space_def)
  from a st
    shaped_parsed[of outer "''{\"intro\":\"real intro\",\"sections\":[]}''" JSON_parse
      "JObj [(''intro'', JStr ''real intro''), (''sections'', JArr [])]"]
  show "parseContentSafely JSON_parse outer =
        Some \<lparr> intro = JStr ''real intro'', sections = JArr [], mermaid = JStr [] \<rparr>"
    by (simp add: field_def)
qed

theorem parseContentSafely_serialized_intro_witness:
  "has_content_shape (JObj [(''intro'', JStr ''{\"intro\":\"real intro\",\"sections\":[]}''), (''sections'', JArr [JNum 1])])
   \<and> example_parse ''{\"intro\":\"real intro\",\"sections\":[]}''
       = Some (JObj [(''intro'', JStr ''real intro''), (''sections'', JArr [])])
   \<and> parseContentSafely example_parse
        (JObj [(''intro'', JStr ''{\"intro\":\"real intro\",\"sections\":[]}''), (''sections'', JArr [JNum 1])])
     = Some \<lparr> intro = JStr ''real intro'', sections = JArr [], mermaid = JStr [] \<rparr>"
proof -
  let ?outer = "JObj [(''intro'', JStr ''{\"intro\":\"real intro\",\"sections\":[]}''), (''sections'', JArr [JNum 1])]"
  have a: "example_parse ''{\"intro\":\"real intro\",\"sections\":[]}''
       = Some (JObj [(''intro'', JStr ''real intro''), (''sections'', JArr [])])"
    by (simp add: example_parse_def)
  have b: "has_content_shape ?outer \<and> field ?outer ''intro'' = JStr ''{\"intro\":\"real intro\",\"sections\":[]}''
      \<and> \<not> truthy (field ?outer ''mermaid'')"
    by (simp add: has_content_shape_def field_def)
  from a b parseContentSafely_serialized_intro[of _ _ example_parse _ ?outer]
  show ?thesis by blast
qed

section \<open>Properties of the diagram preparation\<close>

lemma open_not_word: "is_open c \<Longrightarrow> \<not> is_word c"
  by (auto simp: is_open_def is_word_def)

lemma close_not_word: "is_close c \<Longrightarrow> \<not> is_word c"
  by (auto simp: is_close_def is_word_def)

lemma quote_not_close: "\<not> is_close (CHR 0x22)"
  by (simp add: is_close_def)

lemma takeWhile_prefix: "list_all P w \<Longrightarrow> \<not> P x \<Longrightarrow> takeWhile P (w @ x # r) = w"
  by (induction w) auto

lemma dropWhile_prefix: "list_all P w \<Longrightarrow> \<not> P x \<Longrightarrow> dropWhile P (w @ x # r) = x # r"
  by (induction w) auto

lemma match_node_SomeD:
  assumes "match_node s = Some (n, ob, l, cb, rest)"
  shows "s = n @ ob # l @ cb # rest" and "n \<noteq> []" and "list_all is_word n" and "is_open ob"
    and "l \<noteq> []" and "list_all (\<lambda>c. \<not> is_close c) l" and "is_close cb"
proof -
  from assms have n: "n = takeWhile is_word s" and ne: "n \<noteq> []"
    by (auto simp: match_node_def Let_def split: if_splits list.splits)
  from assms obtain r where r: "dropWhile is_word s = ob # r" and ob: "is_open ob"
    by (auto simp: match_node_def Let_def split: if_splits list.splits)
  from assms r have l: "l = takeWhile (\<lambda>c. \<not> is_close c) r" and le: "l \<noteq> []"
    and d: "dropWhile (\<lambda>c. \<not> is_close c) r = cb # rest"
    by (auto simp: match_node_def Let_def split: if_splits list.splits)
  have "s = takeWhile is_word s @ dropWhile is_word s" by simp
  also have "\<dots> = n @ ob # (takeWhile (\<lambda>c. \<not> is_close c) r @ dropWhile (\<lambda>c. \<not> is_close c) r)"
    using n r by simp
  finally show "s = n @ ob # l @ cb # rest" using l d by simp
  show "n \<noteq> []" by fact
  show "list_all is_word n" unfolding n by (auto simp: list_all_iff dest: set_takeWhileD)
  show "is_open ob" by fact
  show "l \<noteq> []" by fact
  show "list_all (\<lambda>c. \<not> is_close c) l" unfolding l
    by (auto simp: list_all_iff dest: set_takeWhileD)
  from d have "\<not> \<not> is_close cb" by (metis dropWhile_eq_Cons_conv)
  then show "is_close cb" by simp
qed

lemma match_node_SomeI:
  assumes "n \<noteq> []" and "list_all is_word n" and "is_open ob"
    and "l \<noteq> []" and "list_all (\<lambda>c. \<not> is_close c) l" and "is_close cb"
  shows "match_node (n @ ob # l @ cb # rest) = Some (n, ob, l, cb, rest)"
proof -
  have nw: "\<not> is_word ob" using assms(3) by (rule open_not_word)
  have t: "takeWhile is_word (n @ ob # l @ cb # rest) = n"
    using assms(2) nw by (simp add: list_all_iff takeWhile_append2)
  have d: "dropWhile is_word (n @ ob # l @ cb # rest) = ob # l @ cb # rest"
    using assms(2) nw by (simp add: list_all_iff dropWhile_append2)
  have t2: "takeWhile (\<lambda>c. \<not> is_close c) (l @ cb # rest) = l"
    using assms(5,6) by (simp add: list_all_iff takeWhile_append2)
  have d2: "dropWhile (\<lambda>c. \<not> is_close c) (l @ cb # rest) = cb # rest"
    using assms(5,6) by (simp add: list_all_iff dropWhile_append2)
  show ?thesis
    unfolding match_node_def t d using assms(1,3,4) by (simp add: t2 d2 Let_def)
qed

lemma wrap_labels_match:
  assumes "n \<noteq> []" and "list_all is_word n" and "is_open ob"
    and "l \<noteq> []" and "list_all (\<lambda>c. \<not> is_close c) l" and "is_close cb"
  shows "wrap_labels (n @ ob # l @ cb # rest) = replace_label n ob l cb @ wrap_labels rest"
proof -
  from assms(1) obtain c cs where n: "n = c # cs" by (cases n) auto
  have "match_node (c # (cs @ ob # l @ cb # rest)) = Some (n, ob, l, cb, rest)"
    using match_node_SomeI[OF assms, of rest] n by simp
  then show ?thesis using n by simp
qed

lemma replace_label_form:
  "replace_label n ob l cb = n @ ob # l @ [cb]
   \<or> (replace_label n ob l cb = n @ ob # (CHR 0x22 # l @ [CHR 0x22]) @ [cb]
       \<and> \<not> quote_wrapped (trim l) \<and> list_ex is_special l)"
  by (simp add: replace_label_def)

lemma wrap_labels_Nil_iff: "wrap_labels x = [] \<longleftrightarrow> x = []"
proof (cases x)
  case Nil then show ?thesis by simp
next
  case (Cons c cs)
  show ?thesis
  proof (cases "match_node (c # cs)")
    case None then show ?thesis using Cons by simp
  next
    case (Some m)
    obtain n ob l cb rest where m: "m = (n, ob, l, cb, rest)" by (cases m)
    from match_node_SomeD(2)[OF Some[unfolded m]] replace_label_form[of n ob l cb]
    show ?thesis using Cons Some m by auto
  qed
qed

lemma hd_wrap_labels: "x \<noteq> [] \<Longrightarrow> hd (wrap_labels x) = hd x"
proof (cases x)
  case Nil then show "x \<noteq> [] \<Longrightarrow> ?thesis" by simp
next
  case (Cons c cs)
  show ?thesis
  proof (cases "match_node (c # cs)")
    case None then show ?thesis using Cons by simp
  next
    case (Some m)
    obtain n ob l cb rest where m: "m = (n, ob, l, cb, rest)" by (cases m)
    note D = match_node_SomeD[OF Some[unfolded m]]
    from D(1,2) have "hd n = c" by (cases n) auto
    with D(2) replace_label_form[of n ob l cb]
    show ?thesis using Cons Some m by (cases n) auto
  qed
qed

lemma last_wrap_labels: "x \<noteq> [] \<Longrightarrow> last (wrap_labels x) = last x"
proof (induction x rule: wrap_labels.induct)
  case 1 then show ?case by simp
next
  case (2 c cs)
  show ?case
  proof (cases "match_node (c # cs)")
    case None
    show ?thesis
    proof (cases "cs = []")
      case True with None show ?thesis by simp
    next
      case False
      then have "wrap_labels cs \<noteq> []" by (simp add: wrap_labels_Nil_iff)
      with None False "2.IH"(1)[OF None] show ?thesis by simp
    qed
  next
    case (Some m)
    obtain n ob l cb rest where m: "m = (n, ob, l, cb, rest)" by (cases m)
    note D = match_node_SomeD[OF Some[unfolded m]]
    have w: "wrap_labels (c # cs) = replace_label n ob l cb @ wrap_labels rest"
      using Some m by simp
    have lr: "last (replace_label n ob l cb) = cb" "replace_label n ob l cb \<noteq> []"
      using replace_label_form[of n ob l cb] by auto
    show ?thesis
    proof (cases "rest = []")
      case True
      with w lr D(1) show ?thesis by simp
    next
      case False
      then have "wrap_labels rest \<noteq> []" by (simp add: wrap_labels_Nil_iff)
      with w False D(1) "2.IH"(2)[OF Some[unfolded m] refl refl refl refl False]
      show ?thesis by simp
    qed
  qed
qed

lemma set_wrap_labels:
  "set x \<subseteq> set (wrap_labels x) \<and> set (wrap_labels x) \<subseteq> insert (CHR 0x22) (set x)"
proof (induction x rule: wrap_labels.induct)
  case 1 then show ?case by simp
next
  case (2 c cs)
  show ?case
  proof (cases "match_node (c # cs)")
    case None
    with "2.IH"(1)[OF None] show ?thesis by auto
  next
    case (Some m)
    obtain n ob l cb rest where m: "m = (n, ob, l, cb, rest)" by (cases m)
    note D = match_node_SomeD[OF Some[unfolded m]]
    have w: "wrap_labels (c # cs) = replace_label n ob l cb @ wrap_labels rest"
      using Some m by simp
    from replace_label_form[of n ob l cb]
    have r: "set (n @ ob # l @ [cb]) \<subseteq> set (replace_label n ob l cb)
        \<and> set (replace_label n ob l cb) \<subseteq> insert (CHR 0x22) (set (n @ ob # l @ [cb]))"
      by auto
    note IH = "2.IH"(2)[OF Some[unfolded m] refl refl refl refl]
    have x: "set (c # cs) = set (n @ ob # l @ [cb]) \<union> set rest"
      unfolding D(1) by auto
    show ?thesis unfolding w x using r IH by auto
  qed
qed

lemma wrap_labels_all_word: "list_all is_word w \<Longrightarrow> wrap_labels w = w"
proof (induction w)
  case Nil then show ?case by simp
next
  case (Cons a w)
  then have "dropWhile is_word (a # w) = []" by (simp add: list_all_iff)
  then have "match_node (a # w) = None" by (simp add: match_node_def Let_def)
  with Cons show ?case by simp
qed

lemma match_node_not_word: "\<not> is_word x \<Longrightarrow> match_node (x # r) = None"
  by (simp add: match_node_def)

lemma match_node_drop_word:
  assumes "is_word a" and "match_node (a # s) = None"
  shows "match_node s = None"
proof (rule ccontr)
  assume "match_node s \<noteq> None"
  then obtain n ob l cb rest where m: "match_node s = Some (n, ob, l, cb, rest)"
    by (cases "match_node s") auto
  note D = match_node_SomeD[OF m]
  have "match_node ((a # n) @ ob # l @ cb # rest) = Some (a # n, ob, l, cb, rest)"
    using D assms(1) by (intro match_node_SomeI) auto
  with assms(2) D(1) show False by simp
qed

lemma wrap_labels_skip:
  assumes "list_all is_word w" and "\<not> is_word x" and "match_node (w @ x # r) = None"
  shows "wrap_labels (w @ x # r) = w @ x # wrap_labels r"
  using assms
proof (induction w)
  case Nil
  then show ?case by (simp add: match_node_not_word)
next
  case (Cons a w)
  from Cons.prems have a: "is_word a" and w: "list_all is_word w" by auto
  from Cons.prems(3) have n: "match_node (a # (w @ x # r)) = None" by simp
  from match_node_drop_word[OF a n] have "match_node (w @ x # r) = None" .
  from Cons.IH[OF w Cons.prems(2) this] n show ?case by simp
qed

lemma takeWhile_Nil_iff: "takeWhile P y = [] \<longleftrightarrow> y = [] \<or> \<not> P (hd y)"
  by (cases y) auto

lemma match_node_NoneI:
  assumes "list_all is_word w" and "\<not> is_word x"
    and "\<not> is_open x \<or> takeWhile (\<lambda>c. \<not> is_close c) r = []
         \<or> dropWhile (\<lambda>c. \<not> is_close c) r = []"
  shows "match_node (w @ x # r) = None"
proof -
  have t: "takeWhile is_word (w @ x # r) = w" using assms(1,2) by (rule takeWhile_prefix)
  have d: "dropWhile is_word (w @ x # r) = x # r" using assms(1,2) by (rule dropWhile_prefix)
  from assms(3) show ?thesis
  proof (elim disjE)
    assume "\<not> is_open x"
    then show ?thesis by (simp add: match_node_def t d Let_def del: dropWhile_eq_Nil_conv)
  next
    assume a: "takeWhile (\<lambda>c. \<not> is_close c) r = []"
    show ?thesis by (simp add: match_node_def t d a Let_def del: dropWhile_eq_Nil_conv)
  next
    assume a: "dropWhile (\<lambda>c. \<not> is_close c) r = []"
    show ?thesis by (simp add: match_node_def t d a Let_def del: dropWhile_eq_Nil_conv)
  qed
qed

lemma match_node_NoneD:
  assumes "match_node (w @ x # r) = None" and "w \<noteq> []" and "list_all is_word w"
    and "\<not> is_word x"
  shows "\<not> is_open x \<or> takeWhile (\<lambda>c. \<not> is_close c) r = []
         \<or> dropWhile (\<lambda>c. \<not> is_close c) r = []"
proof -
  have t: "takeWhile is_word (w @ x # r) = w" using assms(3,4) by (rule takeWhile_prefix)
  have d: "dropWhile is_word (w @ x # r) = x # r" using assms(3,4) by (rule dropWhile_prefix)
  from assms(1,2) show ?thesis
    by (auto simp: match_node_def t d Let_def split: if_splits list.splits
        simp del: dropWhile_eq_Nil_conv)
qed

lemma match_node_wrapped_tail:
  assumes "match_node (c # cs) = None"
  shows "match_node (c # wrap_labels cs) = None"
proof (cases "is_word c")
  case False then show ?thesis by (rule match_node_not_word)
next
  case True
  let ?s = "c # cs"
  obtain w' where w: "takeWhile is_word ?s = c # w'" using True by simp
  have wall: "list_all is_word (c # w')"
    unfolding w[symmetric] by (auto simp: list_all_iff dest: set_takeWhileD)
  show ?thesis
  proof (cases "dropWhile is_word ?s")
    case Nil
    then have "list_all is_word cs" using True by (auto simp: list_all_iff split: if_splits)
    then show ?thesis using assms by (simp add: wrap_labels_all_word)
  next
    case (Cons x r)
    then have nx: "\<not> is_word x" by (metis dropWhile_eq_Cons_conv)
    have s: "?s = (c # w') @ x # r"
      using takeWhile_dropWhile_id[of is_word ?s] unfolding w Cons by simp
    then have cs: "cs = w' @ x # r" by simp
    have m': "match_node (w' @ x # r) = None"
      using match_node_drop_word[OF True] assms cs by simp
    from wall have w'all: "list_all is_word w'" by simp
    have wr: "wrap_labels cs = w' @ x # wrap_labels r"
      unfolding cs by (rule wrap_labels_skip[OF w'all nx m'])
    from match_node_NoneD[OF assms[unfolded s] _ wall nx]
    have "\<not> is_open x \<or> takeWhile (\<lambda>c. \<not> is_close c) r = []
         \<or> dropWhile (\<lambda>c. \<not> is_close c) r = []" by simp
    then have "\<not> is_open x \<or> takeWhile (\<lambda>c. \<not> is_close c) (wrap_labels r) = []
         \<or> dropWhile (\<lambda>c. \<not> is_close c) (wrap_labels r) = []"
    proof (elim disjE)
      assume "\<not> is_open x" then show ?thesis by simp
    next
      assume "takeWhile (\<lambda>c. \<not> is_close c) r = []"
      then have "r = [] \<or> \<not> \<not> is_close (hd r)" by (simp add: takeWhile_Nil_iff)
      then have "wrap_labels r = [] \<or> \<not> \<not> is_close (hd (wrap_labels r))"
        using hd_wrap_labels[of r] by (cases "r = []") (auto simp: wrap_labels_Nil_iff)
      then have "takeWhile (\<lambda>c. \<not> is_close c) (wrap_labels r) = []"
        by (simp add: takeWhile_Nil_iff)
      then show ?thesis by blast
    next
      assume "dropWhile (\<lambda>c. \<not> is_close c) r = []"
      then have "\<forall>c\<in>set r. \<not> is_close c" by (simp add: dropWhile_eq_Nil_conv)
      with set_wrap_labels[of r] quote_not_close
      have "\<forall>c\<in>set (wrap_labels r). \<not> is_close c" by auto
      then have "dropWhile (\<lambda>c. \<not> is_close c) (wrap_labels r) = []"
        by (simp add: dropWhile_eq_Nil_conv)
      then show ?thesis by blast
    qed
    from match_node_NoneI[OF wall nx this]
    have "match_node ((c # w') @ x # wrap_labels r) = None" .
    then show ?thesis unfolding wr by simp
  qed
qed


lemma quote_not_space: "\<not> is_space (CHR 0x22)"
  by (simp add: is_space_def)

lemma trim_id:
  assumes "x \<noteq> []" and "\<not> is_space (hd x)" and "\<not> is_space (last x)"
  shows "trim x = x"
proof -
  from assms(1,2) have a: "dropWhile is_space x = x" by (cases x) auto
  from assms(1,3) have "dropWhile is_space (rev x) = rev x"
    by (cases "rev x") (auto simp: hd_rev)
  with a show ?thesis by (simp add: trim_def)
qed

lemma quoted_label_stable:
  assumes "\<not> list_ex is_line_terminator l"
  shows "replace_label n ob (CHR 0x22 # l @ [CHR 0x22]) cb
           = n @ ob # (CHR 0x22 # l @ [CHR 0x22]) @ [cb]"
proof -
  have "trim (CHR 0x22 # l @ [CHR 0x22]) = CHR 0x22 # l @ [CHR 0x22]"
    by (rule trim_id) (simp_all add: quote_not_space)
  moreover have "quote_wrapped (CHR 0x22 # l @ [CHR 0x22])"
    using assms by (simp add: quote_wrapped_def is_quote_def list_all_iff list_ex_iff butlast_append)
  ultimately show ?thesis by (simp add: replace_label_def)
qed

lemma wrap_labels_idem:
  assumes "\<forall>l\<in>set (wrapped_labels u). \<not> list_ex is_line_terminator l"
  shows "wrap_labels (wrap_labels u) = wrap_labels u"
  using assms
proof (induction u rule: wrap_labels.induct)
  case 1 then show ?case by simp
next
  case (2 c cs)
  show ?case
  proof (cases "match_node (c # cs)")
    case None
    with "2.prems" have "\<forall>l\<in>set (wrapped_labels cs). \<not> list_ex is_line_terminator l" by simp
    from "2.IH"(1)[OF None this] have ih: "wrap_labels (wrap_labels cs) = wrap_labels cs" .
    from match_node_wrapped_tail[OF None] have "match_node (c # wrap_labels cs) = None" .
    with None ih show ?thesis by simp
  next
    case (Some m)
    obtain n ob l cb rest where m: "m = (n, ob, l, cb, rest)" by (cases m)
    note D = match_node_SomeD[OF Some[unfolded m]]
    have w: "wrap_labels (c # cs) = replace_label n ob l cb @ wrap_labels rest"
      using Some m by simp
    have wl: "wrapped_labels (c # cs) =
        (if \<not> quote_wrapped (trim l) \<and> list_ex is_special l then [l] else []) @ wrapped_labels rest"
      using Some m by simp
    from "2.prems" wl have "\<forall>l\<in>set (wrapped_labels rest). \<not> list_ex is_line_terminator l"
      by auto
    from "2.IH"(2)[OF Some[unfolded m] refl refl refl refl this]
    have ih: "wrap_labels (wrap_labels rest) = wrap_labels rest" .
    from replace_label_form[of n ob l cb] show ?thesis
    proof
      assume r: "replace_label n ob l cb = n @ ob # l @ [cb]"
      have "wrap_labels (n @ ob # l @ cb # wrap_labels rest)
              = replace_label n ob l cb @ wrap_labels (wrap_labels rest)"
        using D by (intro wrap_labels_match) auto
      then show ?thesis unfolding w using r ih by simp
    next
      assume r: "replace_label n ob l cb = n @ ob # (CHR 0x22 # l @ [CHR 0x22]) @ [cb]
                 \<and> \<not> quote_wrapped (trim l) \<and> list_ex is_special l"
      let ?q = "CHR 0x22 # l @ [CHR 0x22]"
      from r wl "2.prems" have nl: "\<not> list_ex is_line_terminator l" by simp
      have "wrap_labels (n @ ob # ?q @ cb # wrap_labels rest)
              = replace_label n ob ?q cb @ wrap_labels (wrap_labels rest)"
        using D quote_not_close by (intro wrap_labels_match) auto
      then show ?thesis unfolding w using r ih quoted_label_stable[OF nl, of n ob cb] by simp
    qed
  qed
qed

lemma length_trim_le: "length (trim x) \<le> length x"
proof -
  have "length (dropWhile is_space (rev (dropWhile is_space x))) \<le> length (rev (dropWhile is_space x))"
    by (rule length_dropWhile_le)
  also have "\<dots> \<le> length x" using length_dropWhile_le[of is_space x] by simp
  finally show ?thesis by (simp add: trim_def)
qed

lemma trim_fixedD:
  assumes "trim x = x" and "x \<noteq> []"
  shows "\<not> is_space (hd x)" and "\<not> is_space (last x)"
proof -
  let ?y = "dropWhile is_space x"
  have ly: "length ?y \<le> length x" by (rule length_dropWhile_le)
  have lt: "length (trim x) \<le> length ?y"
    using length_dropWhile_le[of is_space "rev ?y"] by (simp add: trim_def)
  show h: "\<not> is_space (hd x)"
  proof
    assume "is_space (hd x)"
    with assms(2) have "length ?y < length x" by (cases x) (auto simp: le_imp_less_Suc length_dropWhile_le)
    with lt assms(1) show False by simp
  qed
  then have y: "?y = x" using assms(2) by (cases x) auto
  show "\<not> is_space (last x)"
  proof
    assume sp: "is_space (last x)"
    from assms(2) have "rev x \<noteq> []" by simp
    then obtain a as where r: "rev x = a # as" by (cases "rev x") auto
    then have al: "a = last x" using assms(2) by (metis hd_rev list.sel(1))
    have "dropWhile is_space (rev x) = dropWhile is_space as"
      unfolding r using sp al by simp
    moreover have "length (dropWhile is_space as) \<le> length as" by (rule length_dropWhile_le)
    moreover from r have "length as < length x" by (metis length_rev length_Cons lessI)
    ultimately have "length (dropWhile is_space (rev x)) < length (rev x)" by simp
    then have "length (trim x) < length x" by (simp add: trim_def y)
    with assms(1) show False by simp
  qed
qed

lemma trim_wrap_labels:
  assumes "trim u = u"
  shows "trim (wrap_labels u) = wrap_labels u"
proof (cases "u = []")
  case True then show ?thesis by (simp add: trim_def)
next
  case False
  from trim_fixedD[OF assms False] False show ?thesis
    by (intro trim_id) (simp_all add: wrap_labels_Nil_iff hd_wrap_labels last_wrap_labels)
qed

lemma has_escape_Cons:
  "has_escape (a # v) = ((a = CHR 0x5C \<and> v \<noteq> [] \<and> hd v = CHR ''n'') \<or> has_escape v)"
  by (cases v) auto

lemma has_escape_append:
  "has_escape (a @ b) =
     (has_escape a \<or> has_escape b \<or> (a \<noteq> [] \<and> b \<noteq> [] \<and> last a = CHR 0x5C \<and> hd b = CHR ''n''))"
proof (induction a)
  case Nil then show ?case by simp
next
  case (Cons x a)
  show ?case
  proof (cases "a = []")
    case True then show ?thesis by (cases b) (auto simp: has_escape_Cons)
  next
    case False
    then have "hd (a @ b) = hd a" by simp
    with False Cons show ?thesis by (auto simp: has_escape_Cons)
  qed
qed

lemma unescape_no_escape: "\<not> has_escape v \<Longrightarrow> unescape_newlines v = v"
  by (induction v rule: unescape_newlines.induct) auto

lemma hd_unescape:
  "unescape_newlines (b # cs) \<noteq> []
   \<and> (hd (unescape_newlines (b # cs)) = b \<or> hd (unescape_newlines (b # cs)) = CHR 0x0A)"
  by (cases cs) auto

lemma no_escape_unescape: "\<not> has_escape (unescape_newlines y)"
proof (induction y rule: unescape_newlines.induct)
  case (1 a b cs)
  show ?case
  proof (cases "a = CHR 0x5C \<and> b = CHR ''n''")
    case True
    with 1 show ?thesis by (simp add: has_escape_Cons)
  next
    case False
    with 1 hd_unescape[of b cs] show ?thesis by (auto simp: has_escape_Cons)
  qed
qed simp_all

lemma backslash_not_word: "\<not> is_word (CHR 0x5C)"
  by (simp add: is_word_def)

lemma no_escape_replace_label:
  assumes "\<not> has_escape (n @ ob # l @ [cb])" and "n \<noteq> []" and "list_all is_word n"
  shows "\<not> has_escape (replace_label n ob l cb)"
proof -
  from replace_label_form[of n ob l cb] show ?thesis
  proof
    assume "replace_label n ob l cb = n @ ob # l @ [cb]"
    with assms(1) show ?thesis by simp
  next
    assume r: "replace_label n ob l cb = n @ ob # (CHR 0x22 # l @ [CHR 0x22]) @ [cb]
               \<and> \<not> quote_wrapped (trim l) \<and> list_ex is_special l"
    from assms(2,3) have ln: "last n \<noteq> CHR 0x5C"
      using backslash_not_word by (metis last_in_set list_all_iff)
    from assms(1) have a: "\<not> has_escape n" "\<not> has_escape l"
      by (auto simp: has_escape_append has_escape_Cons)
    have "\<not> has_escape (n @ [ob, CHR 0x22] @ l @ [CHR 0x22, cb])"
      using a ln assms(2) by (auto simp add: has_escape_append has_escape_Cons)
    with r show ?thesis by simp
  qed
qed

lemma no_escape_wrap_labels: "\<not> has_escape u \<Longrightarrow> \<not> has_escape (wrap_labels u)"
proof (induction u rule: wrap_labels.induct)
  case 1 then show ?case by simp
next
  case (2 c cs)
  show ?case
  proof (cases "match_node (c # cs)")
    case None
    from "2.prems" have a: "\<not> (c = CHR 0x5C \<and> cs \<noteq> [] \<and> hd cs = CHR ''n'')" and b: "\<not> has_escape cs"
      by (auto simp: has_escape_Cons)
    from "2.IH"(1)[OF None b] a hd_wrap_labels[of cs] None show ?thesis
      by (auto simp: has_escape_Cons wrap_labels_Nil_iff)
  next
    case (Some m)
    obtain n ob l cb rest where m: "m = (n, ob, l, cb, rest)" by (cases m)
    note D = match_node_SomeD[OF Some[unfolded m]]
    have w: "wrap_labels (c # cs) = replace_label n ob l cb @ wrap_labels rest"
      using Some m by simp
    have u: "c # cs = (n @ ob # l @ [cb]) @ rest" using D(1) by simp
    from "2.prems" have "\<not> has_escape ((n @ ob # l @ [cb]) @ rest)" unfolding u .
    then have p: "\<not> has_escape (n @ ob # l @ [cb])" and r: "\<not> has_escape rest"
      using has_escape_append[of "n @ ob # l @ [cb]" rest] by blast+
    from "2.IH"(2)[OF Some[unfolded m] refl refl refl refl r] have ih: "\<not> has_escape (wrap_labels rest)" .
    from D(7) have cb: "cb \<noteq> CHR 0x5C" by (auto simp: is_close_def)
    have lr: "last (replace_label n ob l cb) = cb"
      using replace_label_form[of n ob l cb] by auto
    from no_escape_replace_label[OF p D(2,3)] ih lr cb show ?thesis
      unfolding w by (simp add: has_escape_append)
  qed
qed

lemma prepareChart_idem:
  assumes "trim (unescape_newlines (trim s)) = unescape_newlines (trim s)"
    and "\<forall>l\<in>set (wrapped_labels (unescape_newlines (trim s))). \<not> list_ex is_line_terminator l"
  shows "prepareChart (prepareChart s) = prepareChart s"
proof -
  let ?u = "unescape_newlines (trim s)"
  have "\<not> has_escape (wrap_labels ?u)"
    by (intro no_escape_wrap_labels no_escape_unescape)
  then have "unescape_newlines (wrap_labels ?u) = wrap_labels ?u" by (rule unescape_no_escape)
  with trim_wrap_labels[OF assms(1)] wrap_labels_idem[OF assms(2)]
  show ?thesis by (simp add: prepareChart_def)
qed

lemmas prepare_eval = prepareChart_def trim_def is_space_def match_node_def replace_label_def
  quote_wrapped_def is_word_def is_open_def is_close_def is_quote_def is_special_def
  is_line_terminator_def Let_def

lemma word_not_space: "is_word c \<Longrightarrow> \<not> is_space c"
  by (auto simp: is_word_def is_space_def)

lemma close_not_space: "is_close c \<Longrightarrow> \<not> is_space c"
  by (auto simp: is_close_def is_space_def)

lemma wrapped_labels_match:
  assumes "n \<noteq> []" and "list_all is_word n" and "is_open ob"
    and "l \<noteq> []" and "list_all (\<lambda>c. \<not> is_close c) l" and "is_close cb"
  shows "wrapped_labels (n @ ob # l @ cb # rest) =
           (if \<not> quote_wrapped (trim l) \<and> list_ex is_special l then [l] else []) @ wrapped_labels rest"
proof -
  from assms(1) obtain c cs where n: "n = c # cs" by (cases n) auto
  have "match_node (c # (cs @ ob # l @ cb # rest)) = Some (n, ob, l, cb, rest)"
    using match_node_SomeI[OF assms, of rest] n by simp
  then show ?thesis using n by simp
qed

lemma bracketed_plain:
  assumes "n \<noteq> []" and "list_all is_word n" and "is_open ob" and "is_close cb"
    and "\<not> has_escape l"
  shows "trim (n @ ob # l @ [cb]) = n @ ob # l @ [cb]"
    and "unescape_newlines (n @ ob # l @ [cb]) = n @ ob # l @ [cb]"
proof -
  let ?s = "n @ ob # l @ [cb]"
  from assms(1,2) have hn: "is_word (hd n)" by (cases n) auto
  show "trim ?s = ?s"
    using assms(1) hn assms(4) by (intro trim_id) (auto simp: word_not_space close_not_space)
  from assms(1,2) have ln: "last n \<noteq> CHR 0x5C"
    using backslash_not_word by (metis last_in_set list_all_iff)
  from assms(2) have "\<not> has_escape n"
    using backslash_not_word
    by (induction n rule: has_escape.induct) auto
  moreover from assms(3) have "ob \<noteq> CHR 0x5C" by (auto simp: is_open_def)
  moreover from assms(4) have "cb \<noteq> CHR ''n''" by (auto simp: is_close_def)
  ultimately have "\<not> has_escape ?s"
    using assms(5) ln assms(1) by (cases "l = []") (auto simp: has_escape_append has_escape_Cons)
  then show "unescape_newlines ?s = ?s" by (rule unescape_no_escape)
qed

lemma single_label:
  assumes "n \<noteq> []" and "list_all is_word n" and "is_open ob" and "is_close cb"
    and "l \<noteq> []" and "list_all (\<lambda>c. \<not> is_close c) l" and "\<not> has_escape l"
    and "list_ex is_special l" and "\<not> quote_wrapped (trim l)"
    and "\<not> list_ex is_line_terminator l"
  shows "prepareChart (n @ ob # l @ [cb]) = n @ ob # CHR 0x22 # l @ [CHR 0x22, cb]"
    and "prepareChart (n @ ob # CHR 0x22 # l @ [CHR 0x22, cb]) = n @ ob # CHR 0x22 # l @ [CHR 0x22, cb]"
proof -
  let ?s = "n @ ob # l @ [cb]"
  note t = bracketed_plain(1)[OF assms(1-4,7)] and u = bracketed_plain(2)[OF assms(1-4,7)]
  have w: "wrap_labels (n @ ob # l @ cb # []) = replace_label n ob l cb @ wrap_labels []"
    using assms by (intro wrap_labels_match) auto
  show p: "prepareChart ?s = n @ ob # CHR 0x22 # l @ [CHR 0x22, cb]"
    using w assms(8,9) by (simp add: prepareChart_def t u replace_label_def)
  have wl: "wrapped_labels (n @ ob # l @ cb # []) =
      (if \<not> quote_wrapped (trim l) \<and> list_ex is_special l then [l] else []) @ wrapped_labels []"
    using assms by (intro wrapped_labels_match) auto
  have "prepareChart (prepareChart ?s) = prepareChart ?s"
    using wl assms(10) by (intro prepareChart_idem) (simp_all add: t u)
  then show "prepareChart (n @ ob # CHR 0x22 # l @ [CHR 0x22, cb]) = n @ ob # CHR 0x22 # l @ [CHR 0x22, cb]"
    unfolding p .
qed

lemma quoted_label_unchanged:
  assumes "n \<noteq> []" and "list_all is_word n" and "is_open ob" and "is_close cb"
    and "l \<noteq> []" and "list_all (\<lambda>c. \<not> is_close c) l" and "\<not> has_escape l"
    and "quote_wrapped (trim l)"
  shows "prepareChart (n @ ob # l @ [cb]) = n @ ob # l @ [cb]"
proof -
  note t = bracketed_plain(1)[OF assms(1-4,7)] and u = bracketed_plain(2)[OF assms(1-4,7)]
  have w: "wrap_labels (n @ ob # l @ cb # []) = replace_label n ob l cb @ wrap_labels []"
    using assms by (intro wrap_labels_match) auto
  show ?thesis
    using w assms(8) by (simp add: prepareChart_def t u replace_label_def)
qed

text \<open>
  C9 (as stated, refuted): \<open>prepareChart\<close> is not idempotent. A source that ends
  with the two characters backslash and \<open>n\<close> is prepared into one that ends with a
  line feed, and preparing that again trims the line feed away. A quote-wrapped label
  that spans two lines fails the single-line test for quotes and is wrapped once more.
\<close>

theorem prepareChart_not_idempotent_counterexample:
  "prepareChart (''A-->B'' @ [CHR 0x5C, CHR ''n'']) = ''A-->B'' @ [CHR 0x0A]
   \<and> prepareChart (prepareChart (''A-->B'' @ [CHR 0x5C, CHR ''n''])) = ''A-->B''
   \<and> prepareChart (prepareChart (''A-->B'' @ [CHR 0x5C, CHR ''n'']))
       \<noteq> prepareChart (''A-->B'' @ [CHR 0x5C, CHR ''n''])
   \<and> prepareChart (''A[\"foo/'' @ [CHR 0x0A] @ ''bar\"]'')
       = ''A[\"\"foo/'' @ [CHR 0x0A] @ ''bar\"\"]''"
  by (simp add: prepare_eval)

text \<open>
  C9 (amended): \<open>prepareChart\<close> is idempotent on every source whose unescaped text
  neither starts nor ends with white space and in which no label that gets wrapped
  contains a line break. A bracketed node label that contains a grammar-breaking
  character, is not quote-wrapped and has no line break or escaped line feed is wrapped
  in double quotes exactly once, and preparing the result leaves it unchanged; a label
  that is quote-wrapped on one line (after trimming) is left unchanged; in particular \<open>A[foo/bar]\<close> becomes \<open>A["foo/bar"]\<close>, and \<open>A["foo/bar"]\<close> is
  left unchanged.
\<close>

theorem prepareChart_idempotent:
  "(trim (unescape_newlines (trim s)) = unescape_newlines (trim s)
      \<and> (\<forall>l\<in>set (wrapped_labels (unescape_newlines (trim s))). \<not> list_ex is_line_terminator l)
      \<longrightarrow> prepareChart (prepareChart s) = prepareChart s)
   \<and> (n \<noteq> [] \<and> list_all is_word n \<and> is_open ob \<and> is_close cb
        \<and> l \<noteq> [] \<and> list_all (\<lambda>c. \<not> is_close c) l \<and> \<not> has_escape l
        \<and> list_ex is_special l \<and> \<not> quote_wrapped (trim l) \<and> \<not> list_ex is_line_terminator l
      \<longrightarrow> prepareChart (n @ ob # l @ [cb]) = n @ ob # CHR 0x22 # l @ [CHR 0x22, cb]
          \<and> prepareChart (n @ ob # CHR 0x22 # l @ [CHR 0x22, cb])
              = n @ ob # CHR 0x22 # l @ [CHR 0x22, cb])
   \<and> (n \<noteq> [] \<and> list_all is_word n \<and> is_open ob \<and> is_close cb
        \<and> q \<noteq> [] \<and> list_all (\<lambda>c. \<not> is_close c) q \<and> \<not> has_escape q
        \<and> quote_wrapped (trim q)
      \<longrightarrow> prepareChart (n @ ob # q @ [cb]) = n @ ob # q @ [cb])
   \<and> prepareChart ''A[foo/bar]'' = ''A[\"foo/bar\"]''
   \<and> prepareChart ''A[\"foo/bar\"]'' = ''A[\"foo/bar\"]''"
proof (intro conjI impI)
  assume "trim (unescape_newlines (trim s)) = unescape_newlines (trim s)
      \<and> (\<forall>l\<in>set (wrapped_labels (unescape_newlines (trim s))). \<not> list_ex is_line_terminator l)"
  then show "prepareChart (prepareChart s) = prepareChart s"
    by (intro prepareChart_idem) auto
next
  assume a: "n \<noteq> [] \<and> list_all is_word n \<and> is_open ob \<and> is_close cb
        \<and> l \<noteq> [] \<and> list_all (\<lambda>c. \<not> is_close c) l \<and> \<not> has_escape l
        \<and> list_ex is_special l \<and> \<not> quote_wrapped (trim l) \<and> \<not> list_ex is_line_terminator l"
  from a show "prepareChart (n @ ob # l @ [cb]) = n @ ob # CHR 0x22 # l @ [CHR 0x22, cb]"
    by (intro single_label(1)) auto
  from a show "prepareChart (n @ ob # CHR 0x22 # l @ [CHR 0x22, cb])
              = n @ ob # CHR 0x22 # l @ [CHR 0x22, cb]"
    by (intro single_label(2)) auto
next
  assume "n \<noteq> [] \<and> list_all is_word n \<and> is_open ob \<and> is_close cb
        \<and> q \<noteq> [] \<and> list_all (\<lambda>c. \<not> is_close c) q \<and> \<not> has_escape q
        \<and> quote_wrapped (trim q)"
  then show "prepareChart (n @ ob # q @ [cb]) = n @ ob # q @ [cb]"
    by (intro quoted_label_unchanged) auto
next
  show "prepareChart ''A[foo/bar]'' = ''A[\"foo/bar\"]''"
    by (simp add: prepare_eval)
  show "prepareChart ''A[\"foo/bar\"]'' = ''A[\"foo/bar\"]''"
    by (simp add: prepare_eval)
qed

theorem prepareChart_idempotent_witness:
  "trim (unescape_newlines (trim (''graph TD'' @ [CHR 0x5C, CHR ''n''] @ ''A[foo/bar] --> B'')))
     = unescape_newlines (trim (''graph TD'' @ [CHR 0x5C, CHR ''n''] @ ''A[foo/bar] --> B''))
   \<and> wrapped_labels
        (unescape_newlines (trim (''graph TD'' @ [CHR 0x5C, CHR ''n''] @ ''A[foo/bar] --> B'')))
      = [''foo/bar'']
   \<and> prepareChart (''graph TD'' @ [CHR 0x5C, CHR ''n''] @ ''A[foo/bar] --> B'')
      = ''graph TD'' @ [CHR 0x0A] @ ''A[\"foo/bar\"] --> B''
   \<and> prepareChart (prepareChart (''graph TD'' @ [CHR 0x5C, CHR ''n''] @ ''A[foo/bar] --> B''))
      = prepareChart (''graph TD'' @ [CHR 0x5C, CHR ''n''] @ ''A[foo/bar] --> B'')
   \<and> list_ex is_special ''ops@example'' \<and> \<not> quote_wrapped (trim ''ops@example'')
   \<and> prepareChart (''Store'' @ CHR ''{'' # ''ops@example'' @ [CHR ''}''])
      = ''Store'' @ CHR ''{'' # CHR 0x22 # ''ops@example'' @ [CHR 0x22, CHR ''}'']
   \<and> quote_wrapped (trim '' 'a/b' '')
   \<and> prepareChart (''Store'' @ CHR ''{'' # '' 'a/b' '' @ [CHR ''}''])
      = ''Store'' @ CHR ''{'' # '' 'a/b' '' @ [CHR ''}'']"
proof -
  let ?s = "''graph TD'' @ [CHR 0x5C, CHR ''n''] @ ''A[foo/bar] --> B''"
  have a: "trim (unescape_newlines (trim ?s)) = unescape_newlines (trim ?s)"
    by (simp add: trim_def is_space_def)
  have b: "wrapped_labels (unescape_newlines (trim ?s)) = [''foo/bar'']"
    by (simp add: prepare_eval)
  then have c: "\<forall>l\<in>set (wrapped_labels (unescape_newlines (trim ?s))). \<not> list_ex is_line_terminator l"
    by (simp add: is_line_terminator_def)
  have d: "prepareChart ?s = ''graph TD'' @ [CHR 0x0A] @ ''A[\"foo/bar\"] --> B''"
    by (simp add: prepare_eval)
  have e: "''Store'' \<noteq> [] \<and> list_all is_word ''Store'' \<and> is_open (CHR ''{'') \<and> is_close (CHR ''}'')
        \<and> ''ops@example'' \<noteq> [] \<and> list_all (\<lambda>c. \<not> is_close c) ''ops@example'' \<and> \<not> has_escape ''ops@example''
        \<and> list_ex is_special ''ops@example'' \<and> \<not> quote_wrapped (trim ''ops@example'')
        \<and> \<not> list_ex is_line_terminator ''ops@example''"
    by (simp add: prepare_eval)
  have f: "'' 'a/b' '' \<noteq> [] \<and> list_all (\<lambda>c. \<not> is_close c) '' 'a/b' ''
        \<and> \<not> has_escape '' 'a/b' '' \<and> quote_wrapped (trim '' 'a/b' '')"
    by (simp add: prepare_eval)
  from a c e f
    prepareChart_idempotent[of ?s "''Store''" "CHR ''{''" "CHR ''}''" "''ops@example''" "'' 'a/b' ''"]
  have "prepareChart (prepareChart ?s) = prepareChart ?s
      \<and> prepareChart (''Store'' @ CHR ''{'' # ''ops@example'' @ [CHR ''}''])
      = ''Store'' @ CHR ''{'' # CHR 0x22 # ''ops@example'' @ [CHR 0x22, CHR ''}'']
      \<and> prepareChart (''Store'' @ CHR ''{'' # '' 'a/b' '' @ [CHR ''}''])
      = ''Store'' @ CHR ''{'' # '' 'a/b' '' @ [CHR ''}'']"
    by blast
  with a b d e f show ?thesis by blast
qed

section \<open>Properties of the diagram engine\<close>

lemma init_invariant_step:
  assumes "initialize_calls w = (if mermaidInitialized w then 1 else 0)"
  shows "initialize_calls (mermaid_step e w) = (if mermaidInitialized (mermaid_step e w) then 1 else 0)"
  using assms
  by (cases e)
     (auto simp: update_component_def finish_load_def load_effect_def render_effect_def
           split: option.splits if_splits)

lemma init_invariant_run:
  assumes "initialize_calls w = (if mermaidInitialized w then 1 else 0)"
  shows "initialize_calls (mermaid_run es w) = (if mermaidInitialized (mermaid_run es w) then 1 else 0)"
  using assms
proof (induction es arbitrary: w)
  case Nil then show ?case by simp
next
  case (Cons e es)
  from Cons.IH[OF init_invariant_step[OF Cons.prems]] show ?case by simp
qed

lemma initialize_at_most_once: "initialize_calls (mermaid_run es initial_world) \<le> 1"
  using init_invariant_run[of initial_world es] by (simp add: initial_world_def)


text \<open>
  C8 (the component breaks its second half): in a fresh process a component mounts with
  a chart; the engine is not loaded, so the load effect starts the import and the render
  effect returns without setting a timer. When the import resolves the engine is
  initialized and the loading state ends, but the render effect depends on
  \<open>[chart]\<close> only and is not run again: no render was requested, nothing is pending,
  every completion event leaves the state as it is, and the component shows nothing.
  A component that mounts after the engine is ready does render the same chart.
\<close>

theorem render_request_dropped:
  "components (mermaid_run [Mount 0 ''graph TD; A-->B'', ImportResolved 0] initial_world) 0
     = Some \<lparr> chart = ''graph TD; A-->B'', svg = [], isError = False, isLoading = False,
              awaiting_import = False, timer_set = False, renders_in_flight = 0 \<rparr>
   \<and> mermaidInitialized (mermaid_run [Mount 0 ''graph TD; A-->B'', ImportResolved 0] initial_world)
   \<and> render_requests (mermaid_run [Mount 0 ''graph TD; A-->B'', ImportResolved 0] initial_world) = []
   \<and> map_option mermaid_view_of
        (components (mermaid_run [Mount 0 ''graph TD; A-->B'', ImportResolved 0] initial_world) 0)
      = Some ShowsNothing
   \<and> (\<forall>cid out.
         mermaid_step (TimerFired cid)
             (mermaid_run [Mount 0 ''graph TD; A-->B'', ImportResolved 0] initial_world)
           = mermaid_run [Mount 0 ''graph TD; A-->B'', ImportResolved 0] initial_world
         \<and> mermaid_step (ImportResolved cid)
             (mermaid_run [Mount 0 ''graph TD; A-->B'', ImportResolved 0] initial_world)
           = mermaid_run [Mount 0 ''graph TD; A-->B'', ImportResolved 0] initial_world
         \<and> mermaid_step (ImportRejected cid)
             (mermaid_run [Mount 0 ''graph TD; A-->B'', ImportResolved 0] initial_world)
           = mermaid_run [Mount 0 ''graph TD; A-->B'', ImportResolved 0] initial_world
         \<and> mermaid_step (RenderResolved cid out)
             (mermaid_run [Mount 0 ''graph TD; A-->B'', ImportResolved 0] initial_world)
           = mermaid_run [Mount 0 ''graph TD; A-->B'', ImportResolved 0] initial_world
         \<and> mermaid_step (RenderRejected cid)
             (mermaid_run [Mount 0 ''graph TD; A-->B'', ImportResolved 0] initial_world)
           = mermaid_run [Mount 0 ''graph TD; A-->B'', ImportResolved 0] initial_world)
   \<and> map_option mermaid_view_of
        (components
           (mermaid_run [Mount 0 ''graph TD; A-->B'', ImportResolved 0,
                         Mount 1 ''graph TD; A-->B'', TimerFired 1, RenderResolved 1 ''<svg/>'']
              initial_world) 1)
      = Some (ShowsDiagram ''<svg/>'')"
proof -
  let ?w = "mermaid_run [Mount 0 ''graph TD; A-->B'', ImportResolved 0] initial_world"
  let ?inst = "\<lparr> chart = ''graph TD; A-->B'', svg = [], isError = False, isLoading = False,
              awaiting_import = False, timer_set = False, renders_in_flight = 0 \<rparr>"
  have w: "?w = \<lparr> mermaidInitialized = True, mermaidModule = True, initialize_calls = 1,
                  render_requests = [], components = (\<lambda>cid. None)(0 \<mapsto> ?inst) \<rparr>"
    by (simp add: initial_world_def load_effect_def render_effect_def finish_load_def
        update_component_def)
  have stuck: "\<forall>cid out.
         mermaid_step (TimerFired cid) ?w = ?w
         \<and> mermaid_step (ImportResolved cid) ?w = ?w
         \<and> mermaid_step (ImportRejected cid) ?w = ?w
         \<and> mermaid_step (RenderResolved cid out) ?w = ?w
         \<and> mermaid_step (RenderRejected cid) ?w = ?w"
    unfolding w by (auto simp: update_component_def)
  have later: "map_option mermaid_view_of
        (components
           (mermaid_run [Mount 0 ''graph TD; A-->B'', ImportResolved 0,
                         Mount 1 ''graph TD; A-->B'', TimerFired 1, RenderResolved 1 ''<svg/>'']
              initial_world) 1)
      = Some (ShowsDiagram ''<svg/>'')"
    by (simp add: initial_world_def load_effect_def render_effect_def finish_load_def
        update_component_def mermaid_view_of_def)
  from stuck later show ?thesis unfolding w by (simp add: mermaid_view_of_def)
qed

end
